(* ===== verification/Prelude.thy ===== *)
theory Prelude
  imports Complex_Main
begin

text \<open>
  Shared vocabulary of the development: the names of the identities the program
  manipulates (DOM elements, JavaScript objects, animation-frame handles,
  IntersectionObserver instances), the collections of lemmas the component
  theories contribute to, and generic facts about lists and folds that the
  proofs about event dispatch and frame queues share.
\<close>

section \<open>Identities\<close>

type_synonym elem = nat    \<comment> \<open>a DOM element, by identity\<close>
type_synonym oid = nat     \<comment> \<open>a JavaScript object (a ProductViewParallax instance)\<close>
type_synonym handle = nat  \<comment> \<open>a requestAnimationFrame handle\<close>
type_synonym obs_id = nat  \<comment> \<open>an IntersectionObserver instance\<close>

section \<open>Lemma collections\<close>

named_theorems frame_simps
  "what a model operation leaves unchanged in the host state or the object heap"

named_theorems inv_intros
  "one operation preserves one of the development's invariants"

section \<open>Lists\<close>

text \<open>
  The host keeps its listener list and its animation-frame queue as lists of
  pairs. The following facts are what the invariants over those lists need.
\<close>

lemma at_most_one_keyed:
  assumes "distinct (map fst xs)"
    and "\<forall>(a, b) \<in> set xs. b = k \<longrightarrow> a = h"
  shows "length (filter (\<lambda>(a, b). b = k) xs) \<le> 1"
  using assms
proof (induction xs)
  case Nil
  then show ?case by simp
next
  case (Cons x xs)
  obtain a b where x: "x = (a, b)" by (cases x)
  show ?case
  proof (cases "b = k")
    case True
    with Cons.prems x have "a = h" by auto
    with Cons.prems x True have "\<forall>(a', b') \<in> set xs. b' \<noteq> k"
      by (fastforce simp: image_iff)
    then have "filter (\<lambda>(a, b). b = k) xs = []"
      by (auto simp: filter_empty_conv)
    with x True show ?thesis by simp
  next
    case False
    with Cons show ?thesis by (simp add: x)
  qed
qed

lemma filter_key_append_single [simp]:
  "length (filter (\<lambda>(a, b). b = k) (xs @ [(h, k)])) =
     Suc (length (filter (\<lambda>(a, b). b = k) xs))"
  by simp

lemma distinct_fst_append_fresh:
  "distinct (map fst xs) \<Longrightarrow> \<forall>a \<in> fst ` set xs. a < (n::nat) \<Longrightarrow>
     distinct (map fst (xs @ [(n, v)]))"
  by (induction xs) auto

section \<open>Folds\<close>

text \<open>
  Event dispatch, animation frames and observer callbacks all run a list of
  callbacks left to right; an invariant that each callback keeps is kept by the
  whole run.
\<close>

lemma foldl_preserves:
  assumes "\<And>s x. x \<in> set xs \<Longrightarrow> P s \<Longrightarrow> P (f s x)"
    and "P s"
  shows "P (foldl f s xs)"
  using assms by (induction xs arbitrary: s) auto

lemma foldl_preserves_rel:
  assumes "\<And>s x. x \<in> set xs \<Longrightarrow> R s (f s x)"
    and "\<And>a b c. R a b \<Longrightarrow> R b c \<Longrightarrow> R a c"
    and "\<And>a. R a a"
  shows "R s (foldl f s xs)"
  using assms
proof (induction xs arbitrary: s)
  case Nil
  then show ?case by simp
next
  case (Cons x xs)
  then have "R s (f s x)" and "R (f s x) (foldl f (f s x) xs)" by auto
  with Cons.prems(2) show ?case by simp
qed

end
