(* ===== verification/Progress.thy ===== *)
theory Progress
  imports Prelude
begin

text \<open>
  The progress function of \<open>ProductViewParallax.update()\<close>
  (src/assets/product-view.js, lines 79--110): from the section's bounding
  rectangle and the viewport height it computes a scroll progress in [0, 1] and
  from it the top inset, in percent, of the clip-path written to the first image.
  Geometry is real-valued (\<open>getBoundingClientRect\<close> returns fractional CSS
  pixels); the rounding of IEEE doubles is not modelled. The theory also states
  the contract of spec section 4.2 as \<open>spec_progress\<close> and proves that the code
  refines it.
\<close>

section \<open>Geometry\<close>

text \<open>The three fields of the DOMRect that \<open>update()\<close> reads.\<close>

record rect =
  rect_top :: real
  rect_bottom :: real
  rect_height :: real

text \<open>
  What the host guarantees of a rectangle returned by \<open>getBoundingClientRect\<close>:
  its bottom edge is its top edge plus its height, and the height is not negative.
  The code relies on it without checking it.
\<close>

definition rect_wf :: "rect \<Rightarrow> bool" where
  "rect_wf r \<longleftrightarrow> rect_bottom r = rect_top r + rect_height r \<and> 0 \<le> rect_height r"

section \<open>The computation in update()\<close>

text \<open>
  Lines 88--104: the branch on the section's position, in the code's order
  (the intersecting case first), with the final default \<open>progress = 0\<close> that
  the code reaches when no branch applies. \<open>Math.max(0, Math.min(1, p))\<close> is
  \<open>max 0 (min 1 p)\<close>.
\<close>

definition scroll_progress :: "rect \<Rightarrow> real \<Rightarrow> real" where
  "scroll_progress r windowHeight =
     (let sectionHeight = rect_height r in
      if 0 < rect_bottom r \<and> rect_top r < windowHeight then
        (let scrollStart = windowHeight;
             scrollEnd = - sectionHeight;
             scrollRange = scrollStart - scrollEnd;
             scrolled = scrollStart - rect_top r;
             progress = scrolled / scrollRange
         in max 0 (min 1 progress))
      else if windowHeight \<le> rect_top r then 0
      else if rect_bottom r \<le> 0 then 1
      else 0)"

text \<open>Line 110: the clip-path top inset, \<open>(1 - progress) * 100\<close> percent.\<close>

definition clip_value :: "real \<Rightarrow> real" where
  "clip_value progress = (1 - progress) * 100"

section \<open>The contract of spec section 4.2\<close>

text \<open>
  The specification's mapping, stated on top, height and viewport height:
  0 when the section is below the viewport, 1 when it is above, and the clamped
  ratio of distance travelled to total travel in between.
\<close>

definition spec_progress :: "real \<Rightarrow> real \<Rightarrow> real \<Rightarrow> real" where
  "spec_progress t h H =
     (if H \<le> t then 0
      else if t + h \<le> 0 then 1
      else max 0 (min 1 ((H - t) / (H + h))))"

section \<open>Lemmas\<close>

lemma in_view_range_pos:
  assumes "rect_wf r" and "0 < rect_bottom r" and "rect_top r < H"
  shows "0 < H + rect_height r"
  using assms by (simp add: rect_wf_def)

lemma scroll_progress_in_view:
  assumes "0 < rect_bottom r" and "rect_top r < H"
  shows "scroll_progress r H = max 0 (min 1 ((H - rect_top r) / (H + rect_height r)))"
  using assms by (simp add: scroll_progress_def Let_def)

lemma scroll_progress_not_in_view:
  assumes "\<not> (0 < rect_bottom r \<and> rect_top r < H)"
  shows "scroll_progress r H = (if H \<le> rect_top r then 0 else if rect_bottom r \<le> 0 then 1 else 0)"
  using assms by (auto simp add: scroll_progress_def Let_def)

lemma ratio_in_unit:
  assumes "rect_wf r" and "0 < rect_bottom r" and "rect_top r < H"
  shows "0 < (H - rect_top r) / (H + rect_height r)"
    and "(H - rect_top r) / (H + rect_height r) < 1"
proof -
  have pos: "0 < H + rect_height r" using assms by (rule in_view_range_pos)
  show "0 < (H - rect_top r) / (H + rect_height r)"
    using assms pos by simp
  have "H - rect_top r < H + rect_height r"
    using assms by (simp add: rect_wf_def)
  then show "(H - rect_top r) / (H + rect_height r) < 1"
    using pos by simp
qed

lemma scroll_progress_bounds:
  "0 \<le> scroll_progress r H \<and> scroll_progress r H \<le> 1"
  by (simp add: scroll_progress_def Let_def)

lemma ratio_antimono:
  fixes H h t1 t2 :: real
  assumes "0 < H + h" and "t2 \<le> t1"
  shows "max 0 (min 1 ((H - t1) / (H + h))) \<le> max 0 (min 1 ((H - t2) / (H + h)))"
proof -
  have "(H - t1) / (H + h) \<le> (H - t2) / (H + h)"
    using assms by (intro divide_right_mono) simp_all
  then show ?thesis by linarith
qed

lemma scroll_progress_eq_spec:
  assumes "rect_wf r"
  shows "scroll_progress r H = spec_progress (rect_top r) (rect_height r) H"
proof (cases "0 < rect_bottom r \<and> rect_top r < H")
  case True
  with assms have "\<not> H \<le> rect_top r" and "\<not> rect_top r + rect_height r \<le> 0"
    by (auto simp: rect_wf_def)
  with True show ?thesis
    by (simp add: scroll_progress_in_view spec_progress_def)
next
  case False
  with assms show ?thesis
    by (auto simp: scroll_progress_not_in_view spec_progress_def rect_wf_def)
qed

section \<open>Properties of the progress function\<close>

text \<open>
  C1 (refinement). For every rectangle the host can return, the code's
  progress (intersecting branch first, then below, then above) is the
  specification's piecewise mapping of section 4.2 (below first, then above,
  then the clamped ratio): the reordering of the tests never changes the value.
\<close>

theorem scroll_progress_refines_spec:
  assumes "rect_wf r"
  shows "scroll_progress r H = spec_progress (rect_top r) (rect_height r) H"
  using assms by (rule scroll_progress_eq_spec)

theorem scroll_progress_refines_spec_witness:
  "rect_wf \<lparr>rect_top = 200, rect_bottom = 600, rect_height = 400\<rparr> \<and>
   scroll_progress \<lparr>rect_top = 200, rect_bottom = 600, rect_height = 400\<rparr> 800 =
     spec_progress 200 400 800"
proof -
  have wf: "rect_wf \<lparr>rect_top = 200, rect_bottom = 600, rect_height = 400\<rparr>"
    by (simp add: rect_wf_def)
  show ?thesis using wf scroll_progress_refines_spec [OF wf, of 800] by simp
qed

text \<open>
  C2 (monotonicity). For a fixed section height and viewport height, moving the
  section up (decreasing its top edge) never decreases the progress, across all
  three branches of the code.
\<close>

theorem scroll_progress_mono:
  assumes wf1: "rect_wf r1" and wf2: "rect_wf r2"
    and same_height: "rect_height r1 = rect_height r2"
    and up: "rect_top r2 \<le> rect_top r1"
  shows "scroll_progress r1 H \<le> scroll_progress r2 H"
proof (cases "0 < rect_bottom r1 \<and> rect_top r1 < H")
  case in1: True
  show ?thesis
  proof (cases "0 < rect_bottom r2")
    case True
    with in1 up have in2: "0 < rect_bottom r2 \<and> rect_top r2 < H" by simp
    have "0 < H + rect_height r1"
      using wf1 in1 by (auto intro: in_view_range_pos)
    then have "max 0 (min 1 ((H - rect_top r1) / (H + rect_height r1)))
        \<le> max 0 (min 1 ((H - rect_top r2) / (H + rect_height r1)))"
      using up by (rule ratio_antimono)
    with in1 in2 same_height show ?thesis
      by (simp add: scroll_progress_in_view)
  next
    case False
    with in1 up have "scroll_progress r2 H = 1"
      by (simp add: scroll_progress_not_in_view)
    then show ?thesis using scroll_progress_bounds [of r1 H] by simp
  qed
next
  case out1: False
  show ?thesis
  proof (cases "H \<le> rect_top r1")
    case True
    with out1 have "scroll_progress r1 H = 0"
      by (simp add: scroll_progress_not_in_view)
    then show ?thesis using scroll_progress_bounds [of r2 H] by simp
  next
    case False
    with out1 have b1: "rect_bottom r1 \<le> 0" by simp
    with wf1 wf2 same_height up have "rect_bottom r2 \<le> 0"
      by (simp add: rect_wf_def)
    with False up have "scroll_progress r2 H = 1"
      by (simp add: scroll_progress_not_in_view)
    then show ?thesis using scroll_progress_bounds [of r1 H] by simp
  qed
qed

theorem scroll_progress_mono_witness:
  "scroll_progress \<lparr>rect_top = 200, rect_bottom = 600, rect_height = 400\<rparr> 800
     \<le> scroll_progress \<lparr>rect_top = -100, rect_bottom = 300, rect_height = 400\<rparr> 800"
  by (rule scroll_progress_mono) (simp_all add: rect_wf_def)

text \<open>
  C3 (bounds). Whatever the geometry, the progress lies in [0, 1] and the
  clip-path top inset written to the image lies in [0, 100] percent.
\<close>

theorem clip_inset_bounds:
  "0 \<le> scroll_progress r H \<and> scroll_progress r H \<le> 1 \<and>
   0 \<le> clip_value (scroll_progress r H) \<and> clip_value (scroll_progress r H) \<le> 100"
  using scroll_progress_bounds [of r H] by (simp add: clip_value_def)

text \<open>
  C13 (below the viewport). Whatever the rest of the rectangle, a section whose
  top edge is at or below the viewport's bottom edge has progress 0 (the
  intersecting branch, tested first, cannot apply). This includes the rectangles
  that are also "above" (bottom at or above 0), which exist only in a viewport
  of height 0 and for which spec section 8 asks for 1 as well.
\<close>

theorem scroll_progress_below:
  assumes "H \<le> rect_top r"
  shows "scroll_progress r H = 0"
  using assms by (simp add: scroll_progress_not_in_view)

theorem scroll_progress_below_witness:
  "(800::real) \<le> rect_top \<lparr>rect_top = 900, rect_bottom = 1300, rect_height = 400\<rparr> \<and>
   scroll_progress \<lparr>rect_top = 900, rect_bottom = 1300, rect_height = 400\<rparr> 800 = 0"
  using scroll_progress_below [of 800 "\<lparr>rect_top = 900, rect_bottom = 1300, rect_height = 400\<rparr>"]
  by simp

text \<open>
  C14 (above the viewport). A section whose bottom edge is at or above the
  viewport's top edge, and whose top edge is above the viewport's bottom edge,
  has progress 1. (When the viewport has height 0 and the section sits at 0 with
  height 0, both spec rules of section 8 apply and the code gives 0.)
\<close>

theorem scroll_progress_above:
  assumes "rect_bottom r \<le> 0" and "rect_top r < H"
  shows "scroll_progress r H = 1"
  using assms by (simp add: scroll_progress_not_in_view)

theorem scroll_progress_above_witness:
  "rect_bottom \<lparr>rect_top = -500, rect_bottom = -100, rect_height = 400\<rparr> \<le> 0 \<and>
   rect_top \<lparr>rect_top = -500, rect_bottom = -100, rect_height = 400\<rparr> < (800::real) \<and>
   scroll_progress \<lparr>rect_top = -500, rect_bottom = -100, rect_height = 400\<rparr> 800 = 1"
  using scroll_progress_above [of "\<lparr>rect_top = -500, rect_bottom = -100, rect_height = 400\<rparr>" 800]
  by simp

text \<open>
  C15 (the clamp never binds on real geometry). For a rectangle the host can
  return that intersects the viewport, the clamped value is the raw ratio
  \<open>scrolled / scrollRange\<close>, which lies strictly between 0 and 1; the divisor
  is positive, so no division by zero is hidden by HOL's \<open>x / 0 = 0\<close>.
\<close>

theorem clamp_inactive_in_view:
  assumes "rect_wf r" and "0 < rect_bottom r" and "rect_top r < H"
  shows "scroll_progress r H = (H - rect_top r) / (H + rect_height r) \<and>
         0 < scroll_progress r H \<and> scroll_progress r H < 1"
proof -
  have "0 < (H - rect_top r) / (H + rect_height r)" "(H - rect_top r) / (H + rect_height r) < 1"
    using ratio_in_unit [OF assms] by simp_all
  then show ?thesis using assms(2,3) by (simp add: scroll_progress_in_view)
qed

theorem clamp_inactive_in_view_witness:
  "rect_wf \<lparr>rect_top = 200, rect_bottom = 600, rect_height = 400\<rparr> \<and>
   scroll_progress \<lparr>rect_top = 200, rect_bottom = 600, rect_height = 400\<rparr> 800 = 1 / 2"
proof -
  have wf: "rect_wf \<lparr>rect_top = 200, rect_bottom = 600, rect_height = 400\<rparr>"
    by (simp add: rect_wf_def)
  show ?thesis using wf clamp_inactive_in_view [OF wf, of 800] by simp
qed

end
