(* ===== verification/Browser.thy ===== *)
theory Browser
  imports Progress
begin

text \<open>
  The host environment that src/assets/product-view.js talks to, as far as the
  code uses it: the window's size and the elements' geometry, the window's
  listener list (\<open>addEventListener\<close>/\<open>removeEventListener\<close>), function
  identities created by \<open>Function.prototype.bind\<close>, the animation-frame queue
  (\<open>requestAnimationFrame\<close>/\<open>cancelAnimationFrame\<close>), IntersectionObserver
  instances, the \<open>style.clipPath\<close> of elements, the two selector queries the
  constructor makes, and the console.
  The state is the extensible record \<open>browser\<close>; every operation is generic in
  the record's extension, so the controller's state (Controller.thy) extends it
  with the object heap and uses these operations unchanged. None of this is code
  of the repository: it is the interface the code is written against, modelled
  after the DOM and HTML standards.
\<close>

section \<open>Host data\<close>

text \<open>The two window event types the code subscribes to.\<close>

datatype evtype = Ev_scroll | Ev_resize

text \<open>The two methods the code registers as listeners.\<close>

datatype meth = OnScroll | OnResize

text \<open>
  A function value, by identity. \<open>this.onScroll.bind(this)\<close> creates a new
  function each time it is evaluated: \<open>Bound stamp m self\<close>, with a stamp no other
  function has. \<open>this.onScroll\<close> without \<open>bind\<close> is the method on the class
  prototype, the same function for every instance: \<open>Proto m\<close>.
\<close>

datatype fn = Bound nat meth oid | Proto meth

text \<open>
  The value of \<open>style.clipPath\<close>: unset (the empty string written by
  \<open>cleanup()\<close>) or \<open>inset(v% 0 0 0)\<close> with its top inset \<open>v\<close>.
\<close>

datatype clip_path = Clip_unset | Clip_inset real

text \<open>The exception \<open>querySelector\<close> raises for a selector it cannot parse.\<close>

datatype dom_error = SyntaxError

text \<open>An IntersectionObserver: whose callback it runs and which elements it observes.\<close>

record observer_rec =
  obs_owner :: oid
  obs_targets :: "elem list"

record browser =
  innerWidth :: int
  innerHeight :: int
  rect_of :: "elem \<Rightarrow> rect"
  listeners :: "(evtype \<times> fn) list"
  fn_stamp :: nat
  frames :: "(handle \<times> oid) list"
  next_frame :: handle
  observers :: "obs_id \<Rightarrow> observer_rec option"
  next_obs :: obs_id
  clip_of :: "elem \<Rightarrow> clip_path"
  has_io :: bool
  sel_section :: "string \<Rightarrow> dom_error + elem option"
  sel_image :: "elem \<Rightarrow> elem option"
  console :: "string list"

text \<open>
  \<open>frames\<close> holds the pending animation-frame callbacks in request order, each
  with its handle and the object whose arrow function \<open>() => this.update()\<close> it
  is. \<open>sel_section sid\<close> is \<open>document.querySelector('.product-view-' + sid)\<close>
  (the host's selector engine, which may throw), \<open>sel_image s\<close> is
  \<open>s.querySelector('.product-view__image-1')\<close>, \<open>has_io\<close> is
  \<open>'IntersectionObserver' in window\<close>.
\<close>

text \<open>The instance a function belongs to: a bound method's \<open>this\<close>.\<close>

fun fn_owner :: "fn \<Rightarrow> oid option" where
  "fn_owner (Bound s m self) = Some self"
| "fn_owner (Proto m) = None"

section \<open>Host operations\<close>

definition bind_method :: "meth \<Rightarrow> oid \<Rightarrow> 'a browser_scheme \<Rightarrow> fn \<times> 'a browser_scheme" where
  "bind_method m self b = (Bound (fn_stamp b) m self, b\<lparr>fn_stamp := Suc (fn_stamp b)\<rparr>)"

text \<open>
  \<open>addEventListener\<close> appends, unless the same type and the same function are
  already registered; \<open>removeEventListener\<close> removes the entry with the same
  type and the same function, if there is one.
\<close>

definition add_listener :: "evtype \<Rightarrow> fn \<Rightarrow> 'a browser_scheme \<Rightarrow> 'a browser_scheme" where
  "add_listener t f b =
     (if (t, f) \<in> set (listeners b) then b else b\<lparr>listeners := listeners b @ [(t, f)]\<rparr>)"

definition remove_listener :: "evtype \<Rightarrow> fn \<Rightarrow> 'a browser_scheme \<Rightarrow> 'a browser_scheme" where
  "remove_listener t f b = b\<lparr>listeners := filter (\<lambda>l. l \<noteq> (t, f)) (listeners b)\<rparr>"

definition request_frame :: "oid \<Rightarrow> 'a browser_scheme \<Rightarrow> handle \<times> 'a browser_scheme" where
  "request_frame self b =
     (next_frame b,
      b\<lparr>frames := frames b @ [(next_frame b, self)], next_frame := Suc (next_frame b)\<rparr>)"

definition cancel_frame :: "handle \<Rightarrow> 'a browser_scheme \<Rightarrow> 'a browser_scheme" where
  "cancel_frame h b = b\<lparr>frames := filter (\<lambda>(h', _). h' \<noteq> h) (frames b)\<rparr>"

definition new_observer :: "oid \<Rightarrow> 'a browser_scheme \<Rightarrow> obs_id \<times> 'a browser_scheme" where
  "new_observer self b =
     (next_obs b,
      b\<lparr>observers := (observers b)(next_obs b \<mapsto> \<lparr>obs_owner = self, obs_targets = []\<rparr>),
        next_obs := Suc (next_obs b)\<rparr>)"

definition observe :: "obs_id \<Rightarrow> elem \<Rightarrow> 'a browser_scheme \<Rightarrow> 'a browser_scheme" where
  "observe ob e b =
     (case observers b ob of
        None \<Rightarrow> b
      | Some r \<Rightarrow> b\<lparr>observers := (observers b)(ob \<mapsto> r\<lparr>obs_targets := obs_targets r @ [e]\<rparr>)\<rparr>)"

definition disconnect :: "obs_id \<Rightarrow> 'a browser_scheme \<Rightarrow> 'a browser_scheme" where
  "disconnect ob b =
     (case observers b ob of
        None \<Rightarrow> b
      | Some r \<Rightarrow> b\<lparr>observers := (observers b)(ob \<mapsto> r\<lparr>obs_targets := []\<rparr>)\<rparr>)"

definition set_clip :: "elem \<Rightarrow> clip_path \<Rightarrow> 'a browser_scheme \<Rightarrow> 'a browser_scheme" where
  "set_clip e v b = b\<lparr>clip_of := (clip_of b)(e := v)\<rparr>"

definition log_error :: "string \<Rightarrow> 'a browser_scheme \<Rightarrow> 'a browser_scheme" where
  "log_error msg b = b\<lparr>console := console b @ [msg]\<rparr>"

section \<open>What each operation changes\<close>

lemma bind_method_fields [frame_simps]:
  "fst (bind_method m self b) = Bound (fn_stamp b) m self"
  "snd (bind_method m self b) = b\<lparr>fn_stamp := Suc (fn_stamp b)\<rparr>"
  by (simp_all add: bind_method_def)

lemma request_frame_fields [frame_simps]:
  "fst (request_frame self b) = next_frame b"
  "snd (request_frame self b) =
     b\<lparr>frames := frames b @ [(next_frame b, self)], next_frame := Suc (next_frame b)\<rparr>"
  by (simp_all add: request_frame_def)

lemma new_observer_fields [frame_simps]:
  "fst (new_observer self b) = next_obs b"
  "snd (new_observer self b) =
     b\<lparr>observers := (observers b)(next_obs b \<mapsto> \<lparr>obs_owner = self, obs_targets = []\<rparr>),
       next_obs := Suc (next_obs b)\<rparr>"
  by (simp_all add: new_observer_def)

lemma remove_listener_absent:
  assumes "(t, f) \<notin> set (listeners b)"
  shows "remove_listener t f b = b"
proof -
  from assms have "filter (\<lambda>l. l \<noteq> (t, f)) (listeners b) = listeners b"
    by (auto intro: filter_True)
  then show ?thesis by (simp add: remove_listener_def)
qed

lemma remove_listener_idem:
  "remove_listener t f (remove_listener t f b) = remove_listener t f b"
  by (simp add: remove_listener_def)

lemma cancel_frame_idem:
  "cancel_frame h (cancel_frame h b) = cancel_frame h b"
  unfolding cancel_frame_def by (simp add: case_prod_unfold)

lemma set_clip_idem:
  "set_clip e v (set_clip e v b) = set_clip e v b"
  by (simp add: set_clip_def)

end
