(* ===== verification/Controller.thy ===== *)
theory Controller
  imports Browser
begin

text \<open>
  The class \<open>ProductViewParallax\<close> of src/assets/product-view.js (lines 4--132).
  An instance is the record \<open>pvp\<close>, with the fields the constructor assigns; the
  program's state \<open>world\<close> extends the host state of Browser.thy with the heap of
  instances (\<open>objs\<close>) and the next free object identity. Each method is a function
  \<open>oid \<Rightarrow> world \<Rightarrow> world\<close> taking \<open>this\<close> by identity, so that callbacks
  registered with the host (bound methods, frame callbacks, observer callbacks)
  can name the instance they run on. Definitions come in dependency order:
  \<open>update\<close>, \<open>init\<close>, the observer callback, \<open>onScroll\<close>, \<open>cleanup\<close>,
  \<open>onResize\<close>, the constructor.
  A method invoked on an identity that is not allocated leaves the world
  unchanged; Runtime.thy proves that every identity the host calls back is
  allocated, so that case never arises.
\<close>

section \<open>Instances and the program state\<close>

text \<open>
  Lines 5--11 (and line 28 for \<open>observer\<close>, which the constructor leaves
  undefined: \<open>None\<close>). \<open>section_el\<close> is the field \<open>this.section\<close>.
\<close>

record pvp =
  sectionId :: string
  section_el :: "elem option"
  image1 :: "elem option"
  isMobile :: bool
  rafId :: "handle option"
  isActive :: bool
  observer :: "obs_id option"

record world = browser +
  objs :: "oid \<Rightarrow> pvp option"
  next_oid :: oid

definition modify_obj :: "oid \<Rightarrow> (pvp \<Rightarrow> pvp) \<Rightarrow> world \<Rightarrow> world" where
  "modify_obj self f w =
     (case objs w self of None \<Rightarrow> w | Some p \<Rightarrow> w\<lparr>objs := (objs w)(self \<mapsto> f p)\<rparr>)"

text \<open>Lines 9 and 61: \<open>window.innerWidth <= 749\<close>.\<close>

definition is_mobile_width :: "int \<Rightarrow> bool" where
  "is_mobile_width width \<longleftrightarrow> width \<le> 749"

section \<open>Methods\<close>

text \<open>
  \<open>update()\<close>, lines 74--112: return early without an image or in mobile mode;
  otherwise read the section's rectangle and the viewport height and write the
  clip-path. (\<open>this.section\<close> is never null when \<open>this.image1\<close> is not, since the
  image is looked up inside the section; the \<open>None\<close> branch is unreachable.)
\<close>

definition update :: "oid \<Rightarrow> world \<Rightarrow> world" where
  "update self w =
     (case objs w self of
        None \<Rightarrow> w
      | Some p \<Rightarrow>
          (case image1 p of
             None \<Rightarrow> w
           | Some img \<Rightarrow>
               if isMobile p then w
               else
                 (case section_el p of
                    None \<Rightarrow> w
                  | Some sec \<Rightarrow>
                      set_clip img
                        (Clip_inset (clip_value
                           (scroll_progress (rect_of w sec) (of_int (innerHeight w))))) w)))"

text \<open>
  \<open>init()\<close>, lines 18--42: two fresh bound functions registered for scroll and
  resize, one immediate update, and, when the host has IntersectionObserver, a new
  observer stored in \<open>this.observer\<close> and observing the section.
\<close>

definition init :: "oid \<Rightarrow> world \<Rightarrow> world" where
  "init self w0 =
     (let (scroll_fn, w1) = bind_method OnScroll self w0;
          w2 = add_listener Ev_scroll scroll_fn w1;
          (resize_fn, w3) = bind_method OnResize self w2;
          w4 = add_listener Ev_resize resize_fn w3;
          w5 = update self w4
      in if has_io w5 then
           (let (ob, w6) = new_observer self w5;
                w7 = modify_obj self (observer_update (\<lambda>_. Some ob)) w6
            in case objs w7 self of
                 None \<Rightarrow> w7
               | Some p \<Rightarrow>
                   (case section_el p of None \<Rightarrow> w7 | Some sec \<Rightarrow> observe ob sec w7))
         else w5)"

text \<open>
  The observer's callback, lines 28--34: for each entry in order, store
  \<open>isIntersecting\<close> in \<open>this.isActive\<close> and update when it is true. An entry is
  represented by its \<open>isIntersecting\<close> flag, the only field the callback reads.
\<close>

definition io_entry :: "oid \<Rightarrow> world \<Rightarrow> bool \<Rightarrow> world" where
  "io_entry self w isIntersecting =
     (let w1 = modify_obj self (isActive_update (\<lambda>_. isIntersecting)) w
      in if isIntersecting then update self w1 else w1)"

definition io_callback :: "oid \<Rightarrow> bool list \<Rightarrow> world \<Rightarrow> world" where
  "io_callback self entries w = foldl (io_entry self) w entries"

text \<open>
  \<open>onScroll()\<close>, lines 44--57: nothing in mobile mode or without an image;
  otherwise cancel the recorded frame request, if any, request a new frame whose
  callback updates this instance, and record its handle. (A handle is a positive
  integer, so \<open>if (this.rafId)\<close> tests for \<open>Some\<close>.)
\<close>

definition onScroll :: "oid \<Rightarrow> world \<Rightarrow> world" where
  "onScroll self w =
     (case objs w self of
        None \<Rightarrow> w
      | Some p \<Rightarrow>
          if isMobile p \<or> image1 p = None then w
          else
            (let w1 = (case rafId p of None \<Rightarrow> w | Some h \<Rightarrow> cancel_frame h w);
                 (h', w2) = request_frame self w1
             in modify_obj self (rafId_update (\<lambda>_. Some h')) w2))"

text \<open>
  \<open>cleanup()\<close>, lines 114--131: cancel the recorded frame and clear the field,
  disconnect the observer and clear the field, remove the listeners
  \<open>this.onScroll\<close> and \<open>this.onResize\<close> (the prototype methods, not the bound
  functions \<open>init()\<close> registered), and reset the clip-path.
\<close>

definition cleanup :: "oid \<Rightarrow> world \<Rightarrow> world" where
  "cleanup self w =
     (case objs w self of
        None \<Rightarrow> w
      | Some p \<Rightarrow>
          (let w1 = (case rafId p of
                       None \<Rightarrow> w
                     | Some h \<Rightarrow> modify_obj self (rafId_update (\<lambda>_. None)) (cancel_frame h w));
               w2 = (case observer p of
                       None \<Rightarrow> w1
                     | Some ob \<Rightarrow> modify_obj self (observer_update (\<lambda>_. None)) (disconnect ob w1));
               w3 = remove_listener Ev_scroll (Proto OnScroll) w2;
               w4 = remove_listener Ev_resize (Proto OnResize) w3
           in case image1 p of None \<Rightarrow> w4 | Some img \<Rightarrow> set_clip img Clip_unset w4))"

text \<open>
  \<open>onResize()\<close>, lines 59--72: recompute the mode from the window width; on a
  change to mobile clean up, on a change to desktop initialise again, otherwise
  update.
\<close>

definition onResize :: "oid \<Rightarrow> world \<Rightarrow> world" where
  "onResize self w =
     (case objs w self of
        None \<Rightarrow> w
      | Some p \<Rightarrow>
          (let wasMobile = isMobile p;
               nowMobile = is_mobile_width (innerWidth w);
               w1 = modify_obj self (isMobile_update (\<lambda>_. nowMobile)) w
           in if wasMobile \<noteq> nowMobile then
                (if nowMobile then cleanup self w1 else init self w1)
              else update self w1))"

text \<open>
  The constructor, lines 5--16: look the section up by class (the host may throw
  a SyntaxError, which propagates to the caller), the image inside it, and the
  mode; allocate the instance; initialise it when section and image exist and the
  window is not mobile-sized. The result is the new instance's identity and the
  new world, or the exception.
\<close>

definition construct :: "string \<Rightarrow> world \<Rightarrow> dom_error + (oid \<times> world)" where
  "construct sid w =
     (case sel_section w sid of
        Inl e \<Rightarrow> Inl e
      | Inr sec \<Rightarrow>
          (let img = (case sec of None \<Rightarrow> None | Some s \<Rightarrow> sel_image w s);
               mob = is_mobile_width (innerWidth w);
               self = next_oid w;
               p = \<lparr>sectionId = sid, section_el = sec, image1 = img, isMobile = mob,
                    rafId = None, isActive = False, observer = None\<rparr>;
               w1 = w\<lparr>objs := (objs w)(self \<mapsto> p), next_oid := Suc self\<rparr>
           in Inr (self, if sec \<noteq> None \<and> img \<noteq> None \<and> \<not> mob then init self w1 else w1)))"

section \<open>The frame-queue invariant\<close>

text \<open>
  Every pending animation frame has a distinct handle below the next handle the
  host will issue, and its handle is the one its instance has recorded in
  \<open>rafId\<close>. This is what makes \<open>cancelAnimationFrame(this.rafId)\<close> in
  \<open>onScroll()\<close> remove the instance's previous request.
\<close>

definition frames_inv :: "world \<Rightarrow> bool" where
  "frames_inv w \<longleftrightarrow> distinct (map fst (frames w)) \<and>
     (\<forall>(h, o') \<in> set (frames w). h < next_frame w \<and> (\<exists>p. objs w o' = Some p \<and> rafId p = Some h))"

text \<open>
  Identities at or beyond \<open>next_oid\<close> are free, and an instance with an image
  has a section (the image was found inside it).
\<close>

definition heap_inv :: "world \<Rightarrow> bool" where
  "heap_inv w \<longleftrightarrow>
     (\<forall>o'. case objs w o' of
             None \<Rightarrow> True
           | Some p \<Rightarrow> o' < next_oid w \<and> (image1 p \<noteq> None \<longrightarrow> section_el p \<noteq> None))"

text \<open>
  Every registered listener is a bound method, created before the host's current
  stamp: the code only ever passes the result of \<open>bind\<close> to
  \<open>addEventListener\<close>.
\<close>

definition listeners_inv :: "world \<Rightarrow> bool" where
  "listeners_inv w \<longleftrightarrow>
     (\<forall>(t, f) \<in> set (listeners w). \<exists>s m o'. f = Bound s m o' \<and> s < fn_stamp w)"

text \<open>
  Every registered listener and every observer belongs to an allocated instance.
\<close>

definition owners_inv :: "world \<Rightarrow> bool" where
  "owners_inv w \<longleftrightarrow>
     (\<forall>l \<in> set (listeners w). \<forall>o'. fn_owner (snd l) = Some o' \<longrightarrow> objs w o' \<noteq> None) \<and>
     (\<forall>ob r. observers w ob = Some r \<longrightarrow> objs w (obs_owner r) \<noteq> None)"

text \<open>The invariants together: the well-formed states of the program.\<close>

definition wf_world :: "world \<Rightarrow> bool" where
  "wf_world w \<longleftrightarrow> frames_inv w \<and> listeners_inv w \<and> heap_inv w \<and> owners_inv w"

text \<open>
  The IntersectionObservers: identities from \<open>next_obs\<close> on are free; an
  observer that still observes something is the one its instance's
  \<open>this.observer\<close> names; an instance in mobile mode holds no observer. Kept
  apart from \<open>wf_world\<close> because only the construction of an instance needs
  both.
\<close>

definition observers_inv :: "world \<Rightarrow> bool" where
  "observers_inv w \<longleftrightarrow>
     (\<forall>ob r. observers w ob = Some r \<longrightarrow> ob < next_obs w) \<and>
     (\<forall>ob r. observers w ob = Some r \<longrightarrow> obs_targets r \<noteq> [] \<longrightarrow>
        map_option observer (objs w (obs_owner r)) = Some (Some ob)) \<and>
     (\<forall>s p. objs w s = Some p \<longrightarrow> isMobile p \<longrightarrow> observer p = None)"

section \<open>An example page\<close>

text \<open>
  A desktop window (800 by 800) with one section, element 1, whose image is
  element 101; the section sits 200 pixels below the top of the viewport and is
  400 pixels high. Used by the witnesses.
\<close>

definition demo_world :: world where
  "demo_world = \<lparr>innerWidth = 800, innerHeight = 800,
     rect_of = (\<lambda>_. \<lparr>rect_top = 200, rect_bottom = 600, rect_height = 400\<rparr>),
     listeners = [], fn_stamp = 0, frames = [], next_frame = 1,
     observers = Map.empty, next_obs = 0, clip_of = (\<lambda>_. Clip_unset), has_io = True,
     sel_section = (\<lambda>s. if s = ''main'' then Inr (Some 1) else Inl SyntaxError),
     sel_image = (\<lambda>e. Some (e + 100)), console = [], objs = Map.empty, next_oid = 0\<rparr>"

section \<open>What the methods change\<close>

lemmas model_eval = construct_def init_def update_def onScroll_def onResize_def cleanup_def
  io_callback_def io_entry_def modify_obj_def is_mobile_width_def Let_def bind_method_def
  add_listener_def remove_listener_def request_frame_def cancel_frame_def new_observer_def
  observe_def disconnect_def set_clip_def log_error_def scroll_progress_def clip_value_def



lemma update_fields [frame_simps]:
  "objs (update self w) = objs w" "frames (update self w) = frames w"
  "next_frame (update self w) = next_frame w" "listeners (update self w) = listeners w"
  "fn_stamp (update self w) = fn_stamp w" "observers (update self w) = observers w"
  "next_obs (update self w) = next_obs w" "next_oid (update self w) = next_oid w"
  "innerWidth (update self w) = innerWidth w" "innerHeight (update self w) = innerHeight w"
  "rect_of (update self w) = rect_of w" "has_io (update self w) = has_io w"
  "console (update self w) = console w" "sel_section (update self w) = sel_section w"
  "sel_image (update self w) = sel_image w"
  by (simp_all add: update_def set_clip_def split: option.splits)

lemma modify_obj_fields [frame_simps]:
  "objs (modify_obj self f w) = (case objs w self of None \<Rightarrow> objs w | Some p \<Rightarrow> (objs w)(self \<mapsto> f p))"
  "frames (modify_obj self f w) = frames w"
  "next_frame (modify_obj self f w) = next_frame w" "listeners (modify_obj self f w) = listeners w"
  "fn_stamp (modify_obj self f w) = fn_stamp w" "observers (modify_obj self f w) = observers w"
  "next_obs (modify_obj self f w) = next_obs w" "next_oid (modify_obj self f w) = next_oid w"
  "innerWidth (modify_obj self f w) = innerWidth w" "innerHeight (modify_obj self f w) = innerHeight w"
  "rect_of (modify_obj self f w) = rect_of w" "has_io (modify_obj self f w) = has_io w"
  "console (modify_obj self f w) = console w" "clip_of (modify_obj self f w) = clip_of w"
  "sel_section (modify_obj self f w) = sel_section w" "sel_image (modify_obj self f w) = sel_image w"
  by (simp_all add: modify_obj_def split: option.splits)

lemma frames_inv_update [simp]: "frames_inv (update self w) = frames_inv w"
  by (simp add: frames_inv_def frame_simps)

lemma frames_inv_cancel_own:
  assumes inv: "frames_inv w" and p: "objs w self = Some p" and h: "rafId p = Some h"
  shows "frames_inv (cancel_frame h w)"
    and "\<forall>(h', o') \<in> set (frames (cancel_frame h w)). o' \<noteq> self"
  using assms by (auto simp: frames_inv_def cancel_frame_def distinct_map_filter)

lemma frames_inv_no_own:
  assumes inv: "frames_inv w" and p: "objs w self = Some p" and h: "rafId p = None"
  shows "\<forall>(h', o') \<in> set (frames w). o' \<noteq> self"
  using assms by (fastforce simp: frames_inv_def)

lemma frames_inv_request:
  assumes inv: "frames_inv w" and p: "objs w self = Some p"
    and own: "\<forall>(h', o') \<in> set (frames w). o' \<noteq> self"
  shows "frames_inv (modify_obj self (rafId_update (\<lambda>_. Some (next_frame w)))
           (snd (request_frame self w)))"
proof -
  have fresh: "\<forall>a \<in> fst ` set (frames w). a < next_frame w"
    using inv by (auto simp: frames_inv_def)
  have "distinct (map fst (frames w))" using inv by (simp add: frames_inv_def)
  then have "distinct (map fst (frames w @ [(next_frame w, self)]))"
    using fresh by (rule distinct_fst_append_fresh)
  with inv p own show ?thesis
    by (fastforce simp: frames_inv_def frame_simps)
qed

lemma frames_inv_onScroll: "frames_inv w \<Longrightarrow> frames_inv (onScroll self w)"
proof -
  assume inv: "frames_inv w"
  show ?thesis
  proof (cases "objs w self")
    case None
    then show ?thesis using inv by (simp add: onScroll_def)
  next
    case (Some p)
    note obj = this
    show ?thesis
    proof (cases "rafId p")
      case None
      with inv obj have "frames_inv (modify_obj self (rafId_update (\<lambda>_. Some (next_frame w)))
           (snd (request_frame self w)))"
        by (intro frames_inv_request frames_inv_no_own)
      with obj None inv show ?thesis
        by (simp add: onScroll_def case_prod_unfold frame_simps Let_def)
    next
      case (Some h)
      let ?w1 = "cancel_frame h w"
      have p1: "objs ?w1 self = Some p" using obj by (simp add: cancel_frame_def)
      from frames_inv_cancel_own [OF inv obj Some]
      have "frames_inv (modify_obj self (rafId_update (\<lambda>_. Some (next_frame ?w1)))
           (snd (request_frame self ?w1)))"
        by (intro frames_inv_request [OF _ p1]) auto
      with obj Some inv show ?thesis
        by (simp add: onScroll_def case_prod_unfold frame_simps Let_def)
    qed
  qed
qed

lemma frames_inv_keep:
  assumes "frames_inv w" and "frames w' = frames w" and "next_frame w' = next_frame w"
    and "\<forall>o' p. objs w o' = Some p \<longrightarrow> (\<exists>p'. objs w' o' = Some p' \<and> rafId p' = rafId p)"
  shows "frames_inv w'"
  using assms unfolding frames_inv_def by fastforce

lemma frames_inv_host_ops [simp]:
  "frames_inv (set_clip e v w) = frames_inv w"
  "frames_inv (remove_listener t f w) = frames_inv w"
  "frames_inv (add_listener t f w) = frames_inv w"
  "frames_inv (disconnect ob w) = frames_inv w"
  "frames_inv (observe ob el w) = frames_inv w"
  "frames_inv (snd (bind_method m self w)) = frames_inv w"
  "frames_inv (snd (new_observer self w)) = frames_inv w"
  by (simp_all add: frames_inv_def set_clip_def remove_listener_def add_listener_def
      disconnect_def observe_def bind_method_def new_observer_def split: option.splits)

lemma frames_inv_modify [simp]:
  assumes "\<And>p. rafId (f p) = rafId p"
  shows "frames_inv (modify_obj self f w) = frames_inv w"
proof
  assume "frames_inv (modify_obj self f w)"
  then show "frames_inv w"
    by (rule frames_inv_keep) (auto simp: assms frame_simps split: option.splits)
next
  assume "frames_inv w"
  then show "frames_inv (modify_obj self f w)"
    by (rule frames_inv_keep) (auto simp: assms frame_simps split: option.splits)
qed

lemma frames_inv_cancel_reset:
  assumes "frames_inv w" and "objs w self = Some p" and "rafId p = Some h"
  shows "frames_inv (modify_obj self (rafId_update (\<lambda>_. None)) (cancel_frame h w))"
proof -
  have o1: "objs (cancel_frame h w) self = Some p"
    using assms(2) by (simp add: cancel_frame_def)
  with frames_inv_cancel_own [OF assms] show ?thesis
    unfolding frames_inv_def by (auto simp: frame_simps)
qed

lemma frames_inv_init: "frames_inv w \<Longrightarrow> frames_inv (init self w)"
  by (simp add: init_def Let_def case_prod_unfold split: option.splits)

lemma frames_inv_cleanup: "frames_inv w \<Longrightarrow> frames_inv (cleanup self w)"
  unfolding cleanup_def
  by (auto simp: Let_def frame_simps frames_inv_cancel_reset split: option.splits)

lemma listeners_host_ops [frame_simps]:
  "listeners (set_clip e v w) = listeners w"
  "listeners (disconnect ob w) = listeners w"
  "listeners (observe ob el w) = listeners w"
  "listeners (cancel_frame h w) = listeners w"
  "listeners (snd (bind_method m self w)) = listeners w"
  "listeners (snd (new_observer self w)) = listeners w"
  "listeners (snd (request_frame self w)) = listeners w"
  "fn_stamp (set_clip e v w) = fn_stamp w"
  "fn_stamp (disconnect ob w) = fn_stamp w"
  "fn_stamp (observe ob el w) = fn_stamp w"
  "fn_stamp (cancel_frame h w) = fn_stamp w"
  "fn_stamp (remove_listener t f w) = fn_stamp w"
  "fn_stamp (add_listener t f w) = fn_stamp w"
  "fn_stamp (snd (new_observer self w)) = fn_stamp w"
  "fn_stamp (snd (request_frame self w)) = fn_stamp w"
  by (simp_all add: set_clip_def remove_listener_def add_listener_def disconnect_def
      observe_def bind_method_def new_observer_def request_frame_def cancel_frame_def
      split: option.splits)

lemma cleanup_listeners:
  "listeners (cleanup self w) =
     (case objs w self of
        None \<Rightarrow> listeners w
      | Some p \<Rightarrow> filter (\<lambda>l. l \<noteq> (Ev_resize, Proto OnResize))
                    (filter (\<lambda>l. l \<noteq> (Ev_scroll, Proto OnScroll)) (listeners w)))"
  by (auto simp: cleanup_def Let_def frame_simps remove_listener_def split: option.splits)

lemma listeners_inv_no_proto:
  "listeners_inv w \<Longrightarrow> (t, Proto m) \<notin> set (listeners w)"
  by (auto simp: listeners_inv_def)

lemma init_listeners:
  assumes "listeners_inv w"
  shows "listeners (init self w) =
           listeners w @ [(Ev_scroll, Bound (fn_stamp w) OnScroll self),
                          (Ev_resize, Bound (Suc (fn_stamp w)) OnResize self)]"
    and "fn_stamp (init self w) = Suc (Suc (fn_stamp w))"
proof -
  have "(Ev_scroll, Bound (fn_stamp w) OnScroll self) \<notin> set (listeners w)"
    and "(Ev_resize, Bound (Suc (fn_stamp w)) OnResize self) \<notin> set (listeners w)"
    using assms by (auto simp: listeners_inv_def)
  then show "listeners (init self w) =
           listeners w @ [(Ev_scroll, Bound (fn_stamp w) OnScroll self),
                          (Ev_resize, Bound (Suc (fn_stamp w)) OnResize self)]"
    by (simp add: init_def Let_def case_prod_unfold frame_simps add_listener_def
        split: option.splits)
  show "fn_stamp (init self w) = Suc (Suc (fn_stamp w))"
    by (simp add: init_def Let_def case_prod_unfold frame_simps add_listener_def
        split: option.splits)
qed


lemma listeners_inv_keep:
  assumes "listeners_inv w" and "set (listeners w') \<subseteq> set (listeners w)"
    and "fn_stamp w \<le> fn_stamp w'"
  shows "listeners_inv w'"
  using assms unfolding listeners_inv_def by fastforce

lemma onScroll_listeners [frame_simps]:
  "listeners (onScroll self w) = listeners w" "fn_stamp (onScroll self w) = fn_stamp w"
  by (simp_all add: onScroll_def Let_def case_prod_unfold frame_simps split: option.splits)

lemma cleanup_fn_stamp [frame_simps]: "fn_stamp (cleanup self w) = fn_stamp w"
  by (auto simp: cleanup_def Let_def frame_simps split: option.splits)

lemma io_callback_listeners [frame_simps]:
  "listeners (io_callback self es w) = listeners w"
  "fn_stamp (io_callback self es w) = fn_stamp w"
  unfolding io_callback_def
  by (induction es arbitrary: w) (simp_all add: io_entry_def Let_def frame_simps)

lemma listeners_inv_update [simp]: "listeners_inv (update self w) = listeners_inv w"
  by (simp add: listeners_inv_def frame_simps)

lemma listeners_inv_modify [simp]: "listeners_inv (modify_obj self f w) = listeners_inv w"
  by (simp add: listeners_inv_def frame_simps)

lemma listeners_inv_onScroll: "listeners_inv w \<Longrightarrow> listeners_inv (onScroll self w)"
  by (simp add: listeners_inv_def frame_simps)

lemma listeners_inv_cleanup: "listeners_inv w \<Longrightarrow> listeners_inv (cleanup self w)"
  by (rule listeners_inv_keep) (auto simp: cleanup_listeners frame_simps split: option.splits)

lemma listeners_inv_init: "listeners_inv w \<Longrightarrow> listeners_inv (init self w)"
  unfolding listeners_inv_def
  by (auto simp: init_listeners [unfolded listeners_inv_def])


lemma heap_inv_host_ops [simp]:
  "heap_inv (set_clip e v w) = heap_inv w"
  "heap_inv (remove_listener t f w) = heap_inv w"
  "heap_inv (add_listener t f w) = heap_inv w"
  "heap_inv (disconnect ob w) = heap_inv w"
  "heap_inv (observe ob el w) = heap_inv w"
  "heap_inv (cancel_frame h w) = heap_inv w"
  "heap_inv (snd (bind_method m self w)) = heap_inv w"
  "heap_inv (snd (new_observer self w)) = heap_inv w"
  "heap_inv (snd (request_frame self w)) = heap_inv w"
  "heap_inv (update self w) = heap_inv w"
  by (simp_all add: heap_inv_def set_clip_def remove_listener_def add_listener_def
      disconnect_def observe_def bind_method_def new_observer_def request_frame_def
      cancel_frame_def frame_simps split: option.splits)

lemma heap_inv_modify [simp]:
  assumes "\<And>p. image1 (f p) = image1 p" and "\<And>p. section_el (f p) = section_el p"
  shows "heap_inv (modify_obj self f w) = heap_inv w"
proof (cases "objs w self")
  case None
  then show ?thesis by (simp add: modify_obj_def)
next
  case (Some p0)
  show ?thesis
    unfolding heap_inv_def
  proof (intro iffI allI)
    fix o'
    assume A: "\<forall>o'. case objs (modify_obj self f w) o' of None \<Rightarrow> True
           | Some p \<Rightarrow> o' < next_oid (modify_obj self f w) \<and> (image1 p \<noteq> None \<longrightarrow> section_el p \<noteq> None)"
    show "case objs w o' of None \<Rightarrow> True
           | Some p \<Rightarrow> o' < next_oid w \<and> (image1 p \<noteq> None \<longrightarrow> section_el p \<noteq> None)"
      using A [rule_format, of o'] Some assms
      by (cases "o' = self") (auto simp: modify_obj_def split: option.splits)
  next
    fix o'
    assume A: "\<forall>o'. case objs w o' of None \<Rightarrow> True
           | Some p \<Rightarrow> o' < next_oid w \<and> (image1 p \<noteq> None \<longrightarrow> section_el p \<noteq> None)"
    show "case objs (modify_obj self f w) o' of None \<Rightarrow> True
           | Some p \<Rightarrow> o' < next_oid (modify_obj self f w) \<and> (image1 p \<noteq> None \<longrightarrow> section_el p \<noteq> None)"
      using A [rule_format, of o'] Some assms
      by (cases "o' = self") (auto simp: modify_obj_def split: option.splits)
  qed
qed

lemma heap_inv_methods:
  assumes "heap_inv w"
  shows "heap_inv (init self w)" and "heap_inv (cleanup self w)"
    and "heap_inv (onScroll self w)" and "heap_inv (onResize self w)"
    and "heap_inv (io_callback self es w)"
proof -
  have i: "\<And>w. heap_inv w \<Longrightarrow> heap_inv (init self w)"
    by (simp add: init_def Let_def case_prod_unfold split: option.splits)
  have c: "\<And>w. heap_inv w \<Longrightarrow> heap_inv (cleanup self w)"
    by (simp add: cleanup_def Let_def split: option.splits)
  show "heap_inv (init self w)" using assms by (rule i)
  show "heap_inv (cleanup self w)" using assms by (rule c)
  show "heap_inv (onScroll self w)"
    using assms by (simp add: onScroll_def Let_def case_prod_unfold split: option.splits)
  show "heap_inv (onResize self w)"
    using assms by (simp add: onResize_def Let_def i c split: option.splits)
  show "heap_inv (io_callback self es w)"
    unfolding io_callback_def
    by (rule foldl_preserves) (simp_all add: io_entry_def Let_def assms)
qed

lemma frames_inv_methods:
  assumes "frames_inv w"
  shows "frames_inv (onResize self w)" and "frames_inv (io_callback self es w)"
proof -
  show "frames_inv (onResize self w)"
    using assms by (simp add: onResize_def Let_def frames_inv_init frames_inv_cleanup
        split: option.splits)
  show "frames_inv (io_callback self es w)"
    unfolding io_callback_def
    by (rule foldl_preserves) (simp_all add: io_entry_def Let_def assms)
qed

lemma listeners_inv_methods:
  assumes "listeners_inv w"
  shows "listeners_inv (onResize self w)" and "listeners_inv (io_callback self es w)"
proof -
  show "listeners_inv (onResize self w)"
    using assms by (simp add: onResize_def Let_def listeners_inv_init listeners_inv_cleanup
        split: option.splits)
  show "listeners_inv (io_callback self es w)"
    using assms by (simp add: listeners_inv_def frame_simps)
qed


lemma cleanup_objs [frame_simps]:
  "objs (cleanup self w) =
     (case objs w self of None \<Rightarrow> objs w | Some p \<Rightarrow> (objs w)(self \<mapsto> p\<lparr>rafId := None, observer := None\<rparr>))"
  by (auto simp: cleanup_def Let_def frame_simps remove_listener_def set_clip_def cancel_frame_def
      disconnect_def split: option.splits)

lemma alloc_methods [frame_simps]:
  "(objs (init self w) o' = None) = (objs w o' = None)"
  "(objs (cleanup self w) o' = None) = (objs w o' = None)"
  "(objs (onScroll self w) o' = None) = (objs w o' = None)"
  "(objs (onResize self w) o' = None) = (objs w o' = None)"
  "(objs (io_callback self es w) o' = None) = (objs w o' = None)"
proof -
  show i: "\<And>w. (objs (init self w) o' = None) = (objs w o' = None)"
    by (simp add: init_def Let_def case_prod_unfold frame_simps add_listener_def observe_def
        split: option.splits)
  show c: "\<And>w. (objs (cleanup self w) o' = None) = (objs w o' = None)"
    by (simp add: cleanup_objs split: option.splits)
  show "(objs (onScroll self w) o' = None) = (objs w o' = None)"
    by (simp add: onScroll_def Let_def case_prod_unfold frame_simps request_frame_def
        cancel_frame_def split: option.splits)
  show "(objs (onResize self w) o' = None) = (objs w o' = None)"
    by (simp add: onResize_def Let_def i c frame_simps split: option.splits)
  show "(objs (io_callback self es w) o' = None) = (objs w o' = None)"
    unfolding io_callback_def
    by (induction es arbitrary: w) (simp_all add: io_entry_def Let_def frame_simps split: option.splits)
qed

lemma owners_inv_keep:
  assumes "owners_inv w"
    and "\<forall>o'. objs w o' \<noteq> None \<longrightarrow> objs w' o' \<noteq> None"
    and "\<forall>l \<in> set (listeners w'). l \<in> set (listeners w) \<or>
           (\<forall>o'. fn_owner (snd l) = Some o' \<longrightarrow> objs w' o' \<noteq> None)"
    and "\<forall>ob r. observers w' ob = Some r \<longrightarrow>
           (\<exists>r'. observers w ob = Some r' \<and> obs_owner r' = obs_owner r) \<or> objs w' (obs_owner r) \<noteq> None"
  shows "owners_inv w'"
  using assms unfolding owners_inv_def by (metis (no_types, lifting))

lemma owners_inv_same_alloc:
  assumes "\<And>o'. (objs w' o' = None) = (objs w o' = None)"
    and "listeners w' = listeners w" and "observers w' = observers w"
  shows "owners_inv w' = owners_inv w"
  using assms unfolding owners_inv_def by simp

lemma modify_obj_alloc [frame_simps]:
  "(objs (modify_obj self f w) o' = None) = (objs w o' = None)"
  by (simp add: modify_obj_def split: option.splits)

lemma owners_inv_update [simp]: "owners_inv (update self w) = owners_inv w"
  by (rule owners_inv_same_alloc) (simp_all add: frame_simps)

lemma owners_inv_modify [simp]: "owners_inv (modify_obj self f w) = owners_inv w"
  by (rule owners_inv_same_alloc) (simp_all only: modify_obj_alloc modify_obj_fields(4,6))

lemma owners_inv_host_ops [simp]:
  "owners_inv (set_clip e v w) = owners_inv w"
  "owners_inv (remove_listener t f w) \<Longrightarrow> True"
  "owners_inv (cancel_frame h w) = owners_inv w"
  "owners_inv (snd (request_frame self w)) = owners_inv w"
  by (simp_all add: owners_inv_def set_clip_def cancel_frame_def request_frame_def)

lemma owners_inv_onScroll: "owners_inv w \<Longrightarrow> owners_inv (onScroll self w)"
  by (simp add: onScroll_def Let_def case_prod_unfold split: option.splits)

lemma owners_inv_cleanup: "owners_inv w \<Longrightarrow> owners_inv (cleanup self w)"
  by (auto simp: cleanup_def Let_def owners_inv_def frame_simps remove_listener_def
      set_clip_def cancel_frame_def disconnect_def split: option.splits if_splits)

lemma owners_inv_init: "owners_inv w \<Longrightarrow> objs w self \<noteq> None \<Longrightarrow> owners_inv (init self w)"
  by (auto simp: init_def Let_def case_prod_unfold owners_inv_def frame_simps add_listener_def
      observe_def split: option.splits if_splits)

lemma owners_inv_io_callback: "owners_inv w \<Longrightarrow> owners_inv (io_callback self es w)"
  unfolding io_callback_def
  by (rule foldl_preserves) (simp_all add: io_entry_def Let_def)

lemma owners_inv_onResize: "owners_inv w \<Longrightarrow> owners_inv (onResize self w)"
  by (auto simp: onResize_def Let_def owners_inv_init owners_inv_cleanup frame_simps
      split: option.splits)

lemma wf_world_methods [inv_intros]:
  assumes "wf_world w"
  shows "wf_world (update self w)" and "objs w self \<noteq> None \<Longrightarrow> wf_world (init self w)"
    and "wf_world (cleanup self w)"
    and "wf_world (onScroll self w)" and "wf_world (onResize self w)"
    and "wf_world (io_callback self es w)"
  using assms
  by (simp_all add: wf_world_def frames_inv_init frames_inv_cleanup frames_inv_onScroll
      frames_inv_methods listeners_inv_init listeners_inv_cleanup listeners_inv_onScroll
      listeners_inv_methods heap_inv_methods owners_inv_init owners_inv_cleanup
      owners_inv_onScroll owners_inv_onResize owners_inv_io_callback)

lemma wf_world_alloc:
  assumes wf: "wf_world w" and img: "image1 p \<noteq> None \<longrightarrow> section_el p \<noteq> None"
    and raf: "rafId p = None"
    and w1: "w1 = w\<lparr>objs := (objs w)(next_oid w \<mapsto> p), next_oid := Suc (next_oid w)\<rparr>"
  shows "wf_world w1"
proof -
  have objs1: "objs w1 = (objs w)(next_oid w \<mapsto> p)" and next1: "next_oid w1 = Suc (next_oid w)"
    and frames1: "frames w1 = frames w" and nf1: "next_frame w1 = next_frame w"
    and l1: "listeners w1 = listeners w" and s1: "fn_stamp w1 = fn_stamp w"
    and ob1: "observers w1 = observers w"
    by (simp_all add: w1)
  have heap: "\<forall>o'. case objs w o' of None \<Rightarrow> True
      | Some q \<Rightarrow> o' < next_oid w \<and> (image1 q \<noteq> None \<longrightarrow> section_el q \<noteq> None)"
    using wf by (simp add: wf_world_def heap_inv_def)
  then have fresh: "objs w (next_oid w) = None"
    by (auto dest: spec [of _ "next_oid w"] split: option.splits)
  have old: "\<And>o' q. objs w o' = Some q \<Longrightarrow> o' \<noteq> next_oid w"
    using fresh by auto
  have "frames_inv w1"
    using wf old unfolding wf_world_def frames_inv_def objs1 frames1 nf1 by fastforce
  moreover have "heap_inv w1"
    unfolding heap_inv_def objs1 next1
  proof
    fix o'
    show "case ((objs w)(next_oid w \<mapsto> p)) o' of None \<Rightarrow> True
          | Some q \<Rightarrow> o' < Suc (next_oid w) \<and> (image1 q \<noteq> None \<longrightarrow> section_el q \<noteq> None)"
      using heap img by (cases "o' = next_oid w") (auto dest: spec [of _ o'] split: option.splits)
  qed
  moreover have "listeners_inv w1"
    using wf by (simp add: wf_world_def listeners_inv_def l1 s1)
  moreover have "owners_inv w1"
    using wf by (auto simp: wf_world_def owners_inv_def objs1 l1 ob1)
  ultimately show ?thesis by (simp add: wf_world_def)
qed

lemma construct_InrE:
  assumes c: "construct sid w = Inr (self, w')"
  obtains p w1 where "self = next_oid w"
    and "w1 = w\<lparr>objs := (objs w)(self \<mapsto> p), next_oid := Suc self\<rparr>"
    and "w' = (if section_el p \<noteq> None \<and> image1 p \<noteq> None \<and> \<not> isMobile p
               then init self w1 else w1)"
    and "rafId p = None" and "observer p = None"
    and "isMobile p = is_mobile_width (innerWidth w)"
    and "image1 p \<noteq> None \<longrightarrow> section_el p \<noteq> None" and "sectionId p = sid"
proof (cases "sel_section w sid")
  case (Inl e)
  with c show ?thesis by (simp add: construct_def)
next
  case (Inr sec)
  define p where "p = \<lparr>sectionId = sid, section_el = sec,
              image1 = (case sec of None \<Rightarrow> None | Some s \<Rightarrow> sel_image w s),
              isMobile = is_mobile_width (innerWidth w), rafId = None, isActive = False,
              observer = None\<rparr>"
  define w1 where "w1 = w\<lparr>objs := (objs w)(next_oid w \<mapsto> p), next_oid := Suc (next_oid w)\<rparr>"
  have "self = next_oid w \<and>
      w' = (if section_el p \<noteq> None \<and> image1 p \<noteq> None \<and> \<not> isMobile p then init self w1 else w1)"
    using c Inr by (auto simp: construct_def Let_def p_def w1_def)
  moreover have "image1 p \<noteq> None \<longrightarrow> section_el p \<noteq> None"
    by (simp add: p_def split: option.splits)
  ultimately show ?thesis using that [of w1 p] by (simp add: w1_def p_def)
qed

lemma wf_construct [inv_intros]:
  assumes wf: "wf_world w" and c: "construct sid w = Inr (self, w')"
  shows "wf_world w'"
proof -
  obtain p w1 where s: "self = next_oid w"
    and w1: "w1 = w\<lparr>objs := (objs w)(self \<mapsto> p), next_oid := Suc self\<rparr>"
    and w': "w' = (if section_el p \<noteq> None \<and> image1 p \<noteq> None \<and> \<not> isMobile p
               then init self w1 else w1)"
    and r: "rafId p = None" and "observer p = None"
    and "isMobile p = is_mobile_width (innerWidth w)"
    and i: "image1 p \<noteq> None \<longrightarrow> section_el p \<noteq> None" and "sectionId p = sid"
    using c by (rule construct_InrE)
  have "wf_world w1" using wf i r w1 [unfolded s] by (rule wf_world_alloc)
  moreover have "objs w1 self \<noteq> None" by (simp add: w1)
  ultimately show ?thesis by (simp add: w' wf_world_methods)
qed

section \<open>Properties of the controller\<close>

text \<open>
  C4 (cleanup does not unsubscribe). In every state where all registered
  listeners are bound functions (every reachable state, Runtime.thy),
  \<open>cleanup()\<close> leaves the window's listener list exactly as it was: it passes
  the unbound prototype methods to \<open>removeEventListener\<close>, which match no
  registered listener. Spec section 4.1 says Deactivate removes both
  subscriptions.
\<close>

theorem cleanup_leaves_listeners:
  assumes "listeners_inv w"
  shows "listeners (cleanup self w) = listeners w"
proof -
  have "filter (\<lambda>l. l \<noteq> (Ev_scroll, Proto OnScroll)) (listeners w) = listeners w"
    using listeners_inv_no_proto [OF assms] by (auto intro: filter_True)
  moreover have "filter (\<lambda>l. l \<noteq> (Ev_resize, Proto OnResize)) (listeners w) = listeners w"
    using listeners_inv_no_proto [OF assms] by (auto intro: filter_True)
  ultimately show ?thesis by (simp add: cleanup_listeners split: option.splits)
qed

theorem cleanup_leaves_listeners_witness:
  "listeners_inv (snd (projr (construct ''main'' demo_world))) \<and>
   listeners (cleanup 0 (snd (projr (construct ''main'' demo_world)))) =
     [(Ev_scroll, Bound 0 OnScroll 0), (Ev_resize, Bound 1 OnResize 0)]"
proof -
  have l: "listeners (snd (projr (construct ''main'' demo_world))) =
     [(Ev_scroll, Bound 0 OnScroll 0), (Ev_resize, Bound 1 OnResize 0)]"
    and s: "fn_stamp (snd (projr (construct ''main'' demo_world))) = 2"
    by (simp_all add: demo_world_def model_eval)
  then have i: "listeners_inv (snd (projr (construct ''main'' demo_world)))"
    by (simp add: listeners_inv_def)
  show ?thesis using i l cleanup_leaves_listeners [OF i, of 0] by simp
qed

lemma modify_obj_host_commute:
  "cancel_frame h (modify_obj s f w) = modify_obj s f (cancel_frame h w)"
  "request_frame s' (modify_obj s f w) =
     (fst (request_frame s' w), modify_obj s f (snd (request_frame s' w)))"
  by (simp_all add: modify_obj_def cancel_frame_def request_frame_def split: option.splits)

lemma modify_obj_comp:
  "modify_obj s f (modify_obj s g w) = modify_obj s (f \<circ> g) w"
  by (simp add: modify_obj_def split: option.splits)

lemma objs_modify_self:
  "objs (modify_obj s f w) s = map_option f (objs w s)"
  by (simp add: modify_obj_def split: option.splits)

text \<open>
  C6 (the visibility flag gates nothing). Setting \<open>isActive\<close>, which the
  IntersectionObserver callback does, commutes with \<open>onScroll()\<close>: scroll
  handling is the same whether the section is visible or not. Spec section 2
  says the Visibility Gate narrows which scroll events trigger recomputation.
\<close>

theorem onScroll_ignores_isActive:
  "onScroll self (modify_obj self (isActive_update (\<lambda>_. b)) w) =
   modify_obj self (isActive_update (\<lambda>_. b)) (onScroll self w)"
proof (cases "objs w self")
  case None
  then show ?thesis by (simp add: onScroll_def modify_obj_def)
next
  case (Some p)
  then show ?thesis
    by (simp add: onScroll_def objs_modify_self Let_def case_prod_unfold
        modify_obj_host_commute modify_obj_comp comp_def split: option.splits)
       (intro conjI impI allI arg_cong2 [where f = "modify_obj self"] ext; simp)+
qed

text \<open>
  C8 (constructor errors). The constructor fails exactly when the host's
  section query throws, and then with that exception; a missing section or
  image is not an error.
\<close>

theorem construct_error:
  "(construct sid w = Inl e) = (sel_section w sid = Inl e)"
  by (simp add: construct_def Let_def split: sum.splits)


lemma onScroll_active_eq:
  assumes "objs w self = Some p" and "\<not> isMobile p" and "image1 p \<noteq> None"
  shows "onScroll self w =
     (let w1 = (case rafId p of None \<Rightarrow> w | Some h \<Rightarrow> cancel_frame h w)
      in modify_obj self (rafId_update (\<lambda>_. Some (next_frame w1))) (snd (request_frame self w1)))"
  using assms by (auto simp: onScroll_def Let_def case_prod_unfold frame_simps)

text \<open>
  C5 (one pending frame per scroll burst). For a desktop instance with an
  image, in a state satisfying the frame-queue invariant, \<open>onScroll()\<close> leaves
  exactly one pending frame of this instance, the one just requested, and
  records its handle in \<open>rafId\<close>.
\<close>

theorem onScroll_single_request:
  assumes inv: "frames_inv w" and p: "objs w self = Some p"
    and desk: "\<not> isMobile p" and img: "image1 p \<noteq> None"
  shows "filter (\<lambda>(h, o'). o' = self) (frames (onScroll self w)) = [(next_frame w, self)] \<and>
         map_option rafId (objs (onScroll self w) self) = Some (Some (next_frame w))"
proof -
  define w1 where "w1 = (case rafId p of None \<Rightarrow> w | Some h \<Rightarrow> cancel_frame h w)"
  have own: "\<forall>(h', o') \<in> set (frames w1). o' \<noteq> self"
    using frames_inv_no_own [OF inv p] frames_inv_cancel_own(2) [OF inv p]
    by (cases "rafId p") (simp_all add: w1_def)
  have nf: "next_frame w1 = next_frame w" and o1: "objs w1 self = Some p"
    using p by (simp_all add: w1_def cancel_frame_def split: option.splits)
  have "filter (\<lambda>(h, o'). o' = self) (frames w1) = []"
    using own by (auto simp: filter_empty_conv)
  then show ?thesis
    using onScroll_active_eq [OF p desk img] o1 nf
    by (simp add: w1_def [symmetric] frame_simps)
qed

theorem onScroll_single_request_witness:
  "frames_inv (snd (projr (construct ''main'' demo_world))) \<and>
   filter (\<lambda>(h, o'). o' = 0)
     (frames (onScroll 0 (snd (projr (construct ''main'' demo_world))))) = [(1, 0)]"
proof -
  let ?w = "snd (projr (construct ''main'' demo_world))"
  have f: "frames ?w = []" and n: "next_frame ?w = 1"
    and o: "objs ?w 0 = Some \<lparr>sectionId = ''main'', section_el = Some 1, image1 = Some 101,
          isMobile = False, rafId = None, isActive = False, observer = Some 0\<rparr>"
    by (simp_all add: demo_world_def model_eval)
  have i: "frames_inv ?w" by (simp add: frames_inv_def f)
  show ?thesis using i onScroll_single_request [OF i o] n by simp
qed

text \<open>
  C7 (an instance built at mobile width registers nothing). When the window is
  at most 749 pixels wide, the constructor allocates the instance in mobile mode
  and registers no listener, frame or observer and writes no clip-path; in
  particular no resize listener exists to notice a later change to desktop width.
\<close>

theorem construct_mobile_inert:
  assumes mob: "is_mobile_width (innerWidth w)" and c: "construct sid w = Inr (self, w')"
  shows "listeners w' = listeners w \<and> frames w' = frames w \<and> observers w' = observers w \<and>
         clip_of w' = clip_of w \<and> map_option isMobile (objs w' self) = Some True"
  using assms by (auto simp: construct_def Let_def split: sum.splits)

theorem construct_mobile_inert_witness:
  "is_mobile_width (innerWidth (demo_world\<lparr>innerWidth := 700\<rparr>)) \<and>
   listeners (snd (projr (construct ''main'' (demo_world\<lparr>innerWidth := 700\<rparr>)))) = []"
proof -
  have m: "is_mobile_width (innerWidth (demo_world\<lparr>innerWidth := 700\<rparr>))"
    by (simp add: demo_world_def is_mobile_width_def)
  have c: "construct ''main'' (demo_world\<lparr>innerWidth := 700\<rparr>) =
             Inr (0, snd (projr (construct ''main'' (demo_world\<lparr>innerWidth := 700\<rparr>))))"
    by (simp add: demo_world_def construct_def Let_def)
  show ?thesis using m construct_mobile_inert [OF m c] by (simp add: demo_world_def)
qed

text \<open>
  C16 (mobile mode writes nothing). While an instance is in mobile mode,
  \<open>update()\<close> returns at its first guard and \<open>onScroll()\<close> at its own, so neither
  changes any part of the state: no frame is requested and no clip-path written.
\<close>

theorem mobile_mode_writes_nothing:
  assumes "objs w self = Some p" and "isMobile p"
  shows "update self w = w \<and> onScroll self w = w"
  using assms by (simp add: update_def onScroll_def split: option.splits)

theorem mobile_mode_writes_nothing_witness:
  "isMobile \<lparr>sectionId = ''main'', section_el = Some 1, image1 = Some 101, isMobile = True,
      rafId = None, isActive = False, observer = None\<rparr> \<and>
   onScroll 0 (snd (projr (construct ''main'' (demo_world\<lparr>innerWidth := 700\<rparr>)))) =
     snd (projr (construct ''main'' (demo_world\<lparr>innerWidth := 700\<rparr>)))"
proof -
  let ?w = "snd (projr (construct ''main'' (demo_world\<lparr>innerWidth := 700\<rparr>)))"
  have o: "objs ?w 0 = Some \<lparr>sectionId = ''main'', section_el = Some 1, image1 = Some 101,
      isMobile = True, rafId = None, isActive = False, observer = None\<rparr>"
    by (simp add: demo_world_def construct_def Let_def is_mobile_width_def)
  show ?thesis using mobile_mode_writes_nothing [OF o] by simp
qed

text \<open>
  C17 (returning to desktop registers a fresh pair of listeners). When
  \<open>onResize()\<close> finds a mobile instance at a desktop width, it calls \<open>init()\<close>,
  which appends two newly bound listeners to the window's list and keeps every
  listener already there, including the pair of an earlier activation.
\<close>

theorem onResize_reactivation_appends:
  assumes inv: "listeners_inv w" and p: "objs w self = Some p" and mob: "isMobile p"
    and wide: "\<not> is_mobile_width (innerWidth w)"
  shows "listeners (onResize self w) =
           listeners w @ [(Ev_scroll, Bound (fn_stamp w) OnScroll self),
                          (Ev_resize, Bound (Suc (fn_stamp w)) OnResize self)]"
proof -
  let ?w1 = "modify_obj self (isMobile_update (\<lambda>_. False)) w"
  have "onResize self w = init self ?w1"
    using p mob wide by (simp add: onResize_def Let_def)
  moreover have "listeners_inv ?w1" using inv by simp
  ultimately show ?thesis by (simp add: init_listeners frame_simps)
qed

theorem onResize_reactivation_appends_witness:
  "listeners (onResize 0 (demo_world\<lparr>innerWidth := 900,
      listeners := [(Ev_scroll, Bound 0 OnScroll 0), (Ev_resize, Bound 1 OnResize 0)],
      fn_stamp := 2, objs := [0 \<mapsto> \<lparr>sectionId = ''main'', section_el = Some 1, image1 = Some 101,
        isMobile = True, rafId = None, isActive = False, observer = None\<rparr>], next_oid := 1\<rparr>)) =
     [(Ev_scroll, Bound 0 OnScroll 0), (Ev_resize, Bound 1 OnResize 0),
      (Ev_scroll, Bound 2 OnScroll 0), (Ev_resize, Bound 3 OnResize 0)]"
proof -
  let ?w = "demo_world\<lparr>innerWidth := 900,
      listeners := [(Ev_scroll, Bound 0 OnScroll 0), (Ev_resize, Bound 1 OnResize 0)],
      fn_stamp := 2, objs := [0 \<mapsto> \<lparr>sectionId = ''main'', section_el = Some 1, image1 = Some 101,
        isMobile = True, rafId = None, isActive = False, observer = None\<rparr>], next_oid := 1\<rparr>"
  have inv: "listeners_inv ?w" by (simp add: listeners_inv_def)
  have p: "objs ?w 0 = Some \<lparr>sectionId = ''main'', section_el = Some 1, image1 = Some 101,
        isMobile = True, rafId = None, isActive = False, observer = None\<rparr>" by simp
  have wide: "\<not> is_mobile_width (innerWidth ?w)" by (simp add: is_mobile_width_def)
  show ?thesis using onResize_reactivation_appends [OF inv p _ wide] by simp
qed


lemma cleanup_effect:
  assumes "objs w self = Some p"
  shows "frames (cleanup self w) =
           (case rafId p of None \<Rightarrow> frames w | Some h \<Rightarrow> frames (cancel_frame h w))"
    and "observers (cleanup self w) =
           (case observer p of None \<Rightarrow> observers w | Some ob \<Rightarrow> observers (disconnect ob w))"
    and "image1 p = Some img \<Longrightarrow> clip_of (cleanup self w) img = Clip_unset"
  using assms
  by (auto simp: cleanup_def Let_def frame_simps remove_listener_def set_clip_def cancel_frame_def
      disconnect_def split: option.splits)

text \<open>
  C18 (cleanup tears the instance down). \<open>cleanup()\<close> leaves no pending animation
  frame of the instance, resets \<open>rafId\<close> and \<open>observer\<close>, unsets the image's
  clip-path and empties the observed targets of the instance's observer.
\<close>

theorem cleanup_tears_down:
  assumes inv: "frames_inv w" and p: "objs w self = Some p"
  shows "(\<forall>e \<in> set (frames (cleanup self w)). snd e \<noteq> self) \<and>
         objs (cleanup self w) self = Some (p\<lparr>rafId := None, observer := None\<rparr>) \<and>
         (\<forall>img. image1 p = Some img \<longrightarrow> clip_of (cleanup self w) img = Clip_unset) \<and>
         (\<forall>ob. observer p = Some ob \<longrightarrow>
            observers (cleanup self w) ob = map_option (obs_targets_update (\<lambda>_. [])) (observers w ob))"
proof (intro conjI allI impI)
  show "\<forall>e \<in> set (frames (cleanup self w)). snd e \<noteq> self"
    using frames_inv_no_own [OF inv p] frames_inv_cancel_own(2) [OF inv p]
    by (cases "rafId p") (auto simp: cleanup_effect(1) [OF p])
  show "objs (cleanup self w) self = Some (p\<lparr>rafId := None, observer := None\<rparr>)"
    using p by (simp add: cleanup_objs)
next
  fix img assume "image1 p = Some img"
  then show "clip_of (cleanup self w) img = Clip_unset" by (rule cleanup_effect(3) [OF p])
next
  fix ob assume "observer p = Some ob"
  then show "observers (cleanup self w) ob = map_option (obs_targets_update (\<lambda>_. [])) (observers w ob)"
    by (simp add: cleanup_effect(2) [OF p] disconnect_def split: option.splits)
qed

theorem cleanup_tears_down_witness:
  "frames_inv (onScroll 0 (snd (projr (construct ''main'' demo_world)))) \<and>
   frames (cleanup 0 (onScroll 0 (snd (projr (construct ''main'' demo_world))))) = [] \<and>
   clip_of (cleanup 0 (onScroll 0 (snd (projr (construct ''main'' demo_world))))) 101 = Clip_unset"
proof -
  let ?w = "onScroll 0 (snd (projr (construct ''main'' demo_world)))"
  have f: "frames ?w = [(1, 0)]" and n: "next_frame ?w = 2"
    and o: "objs ?w 0 = Some \<lparr>sectionId = ''main'', section_el = Some 1, image1 = Some 101,
          isMobile = False, rafId = Some 1, isActive = False, observer = Some 0\<rparr>"
    by (simp_all add: demo_world_def model_eval)
  have i: "frames_inv ?w" by (simp add: frames_inv_def f n o)
  have "\<forall>e \<in> set (frames (cleanup 0 ?w)). snd e \<noteq> 0"
    and c: "clip_of (cleanup 0 ?w) 101 = Clip_unset"
    using cleanup_tears_down [OF i o] by simp_all
  moreover have "set (frames (cleanup 0 ?w)) \<subseteq> set (frames ?w)"
    using o by (auto simp: cleanup_effect(1) cancel_frame_def)
  ultimately have "frames (cleanup 0 ?w) = []" using f by (cases "frames (cleanup 0 ?w)") auto
  with i c show ?thesis by simp
qed

lemma modify_obj_same:
  assumes "objs w self = Some p" and "f p = p"
  shows "modify_obj self f w = w"
  using assms by (simp add: modify_obj_def fun_upd_idem)

lemma init_isMobile:
  "map_option isMobile (objs (init self w) self) = map_option isMobile (objs w self)"
  by (auto simp: init_def Let_def case_prod_unfold frame_simps add_listener_def observe_def
      split: option.splits)


lemma methods_innerWidth:
  "innerWidth (init self w) = innerWidth w" "innerWidth (cleanup self w) = innerWidth w"
  by (simp_all add: init_def cleanup_def Let_def case_prod_unfold frame_simps add_listener_def
      observe_def remove_listener_def set_clip_def cancel_frame_def disconnect_def split: option.splits)

lemma io_entry_fields:
  "objs (io_entry self w b) self = map_option (isActive_update (\<lambda>_. b)) (objs w self)"
  "rect_of (io_entry self w b) = rect_of w" "innerHeight (io_entry self w b) = innerHeight w"
  by (auto simp: io_entry_def Let_def frame_simps split: option.splits)

lemma io_callback_objs:
  "objs (io_callback self bs w) self =
     map_option (\<lambda>p. if bs = [] then p else p\<lparr>isActive := last bs\<rparr>) (objs w self)"
  by (induction bs rule: rev_induct) (auto simp: io_callback_def io_entry_fields option.map_comp option.map_ident
      intro: option.map_cong)

lemma io_callback_geometry:
  "rect_of (io_callback self bs w) = rect_of w" "innerHeight (io_callback self bs w) = innerHeight w"
  by (induction bs rule: rev_induct) (simp_all add: io_callback_def io_entry_fields)

text \<open>
  C22 (the observer callback). For a desktop instance with its section and image,
  a notification with a non-empty list of entries leaves \<open>isActive\<close> equal to
  the last entry's \<open>isIntersecting\<close>, and writes the image's clip-path for the
  current geometry exactly when some entry is intersecting (spec section 4.1,
  OnVisibilityChange).
\<close>

theorem io_callback_effect:
  assumes p: "objs w self = Some p" and desk: "\<not> isMobile p"
    and img: "image1 p = Some img" and sec: "section_el p = Some sec" and ne: "entries \<noteq> []"
  shows "map_option isActive (objs (io_callback self entries w) self) = Some (last entries) \<and>
         clip_of (io_callback self entries w) img =
           (if True \<in> set entries
            then Clip_inset (clip_value (scroll_progress (rect_of w sec) (of_int (innerHeight w))))
            else clip_of w img)"
  using ne
proof (induction entries rule: rev_induct)
  case Nil
  then show ?case by simp
next
  case (snoc b bs)
  let ?w = "io_callback self bs w"
  have o: "objs ?w self = Some (if bs = [] then p else p\<lparr>isActive := last bs\<rparr>)"
    using p by (simp add: io_callback_objs)
  have g: "rect_of ?w = rect_of w" "innerHeight ?w = innerHeight w"
    by (simp_all add: io_callback_geometry)
  have c: "clip_of (io_entry self ?w b) img =
      (if b then Clip_inset (clip_value (scroll_progress (rect_of w sec) (of_int (innerHeight w))))
       else clip_of ?w img)"
    using o g desk img sec
    by (auto simp: io_entry_def Let_def update_def modify_obj_def set_clip_def)
  have "clip_of ?w img = (if True \<in> set bs
        then Clip_inset (clip_value (scroll_progress (rect_of w sec) (of_int (innerHeight w))))
        else clip_of w img)"
    using snoc.IH by (cases "bs = []") (auto simp: io_callback_def)
  with c p show ?case
    by (simp add: io_callback_def io_entry_fields io_callback_objs [unfolded io_callback_def])
qed

theorem io_callback_effect_witness:
  "map_option isActive (objs (io_callback 0 [False, True] (snd (projr (construct ''main'' demo_world)))) 0)
     = Some True \<and>
   clip_of (io_callback 0 [False, True] (snd (projr (construct ''main'' demo_world)))) 101 = Clip_inset 50"
proof -
  let ?w = "snd (projr (construct ''main'' demo_world))"
  have p: "objs ?w 0 = Some \<lparr>sectionId = ''main'', section_el = Some 1, image1 = Some 101,
          isMobile = False, rafId = None, isActive = False, observer = Some 0\<rparr>"
    and r: "rect_of ?w 1 = \<lparr>rect_top = 200, rect_bottom = 600, rect_height = 400\<rparr>"
    and h: "innerHeight ?w = 800"
    by (simp_all add: demo_world_def model_eval)
  have "clip_value (scroll_progress \<lparr>rect_top = 200, rect_bottom = 600, rect_height = 400\<rparr> 800) = 50"
    by (simp add: scroll_progress_def clip_value_def)
  then show ?thesis
    using io_callback_effect [OF p _ _ _, of 101 1 "[False, True]"] r h by simp
qed

text \<open>
  C23 (a resize within the same mode). When the window width leaves the mode
  unchanged, \<open>onResize()\<close> does exactly what \<open>update()\<close> does: the progress is
  recomputed for the new viewport and nothing is registered or torn down.
\<close>

theorem onResize_same_mode:
  assumes p: "objs w self = Some p" and same: "isMobile p = is_mobile_width (innerWidth w)"
  shows "onResize self w = update self w"
proof -
  have "modify_obj self (isMobile_update (\<lambda>_. is_mobile_width (innerWidth w))) w = w"
    using p same [symmetric] by (intro modify_obj_same) (simp_all, cases p, simp)
  then show ?thesis using p same by (simp add: onResize_def Let_def)
qed


theorem onResize_same_mode_witness:
  "onResize 0 ((snd (projr (construct ''main'' demo_world)))\<lparr>innerWidth := 1024\<rparr>) =
   update 0 ((snd (projr (construct ''main'' demo_world)))\<lparr>innerWidth := 1024\<rparr>)"
proof -
  let ?w = "(snd (projr (construct ''main'' demo_world)))\<lparr>innerWidth := 1024\<rparr>"
  have p: "objs ?w 0 = Some \<lparr>sectionId = ''main'', section_el = Some 1, image1 = Some 101,
          isMobile = False, rafId = None, isActive = False, observer = Some 0\<rparr>"
    by (simp add: demo_world_def model_eval)
  have "isMobile \<lparr>sectionId = ''main'', section_el = Some 1, image1 = Some 101,
          isMobile = False, rafId = None, isActive = False, observer = Some 0\<rparr> =
        is_mobile_width (innerWidth ?w)"
    by (simp add: is_mobile_width_def)
  then show ?thesis by (rule onResize_same_mode [OF p])
qed

text \<open>
  C27 (switching to mobile). When \<open>onResize()\<close> finds a desktop instance at a
  mobile width, the instance ends in mobile mode with no frame request and no
  observer, no animation frame of it is pending and its image's clip-path is
  unset, as spec section 4.1 asks of Deactivate; but the window keeps every
  listener, those of this instance included.
\<close>

theorem onResize_to_mobile_teardown:
  assumes wf: "wf_world w" and p: "objs w s = Some p" and desk: "\<not> isMobile p"
    and narrow: "is_mobile_width (innerWidth w)"
  shows "objs (onResize s w) s = Some (p\<lparr>isMobile := True, rafId := None, observer := None\<rparr>) \<and>
         (\<forall>e \<in> set (frames (onResize s w)). snd e \<noteq> s) \<and>
         listeners (onResize s w) = listeners w \<and>
         (\<forall>img. image1 p = Some img \<longrightarrow> clip_of (onResize s w) img = Clip_unset)"
proof -
  let ?w1 = "modify_obj s (isMobile_update (\<lambda>_. True)) w"
  have e: "onResize s w = cleanup s ?w1" using p desk narrow by (simp add: onResize_def Let_def)
  have p1: "objs ?w1 s = Some (p\<lparr>isMobile := True\<rparr>)" using p by (simp add: frame_simps)
  have fi: "frames_inv ?w1" and li: "listeners_inv w" using wf by (simp_all add: wf_world_def)
  have "\<forall>e \<in> set (frames (cleanup s ?w1)). snd e \<noteq> s"
    using frames_inv_no_own [OF fi p1] frames_inv_cancel_own(2) [OF fi p1]
    by (cases "rafId p") (auto simp: cleanup_effect(1) [OF p1])
  moreover have "listeners (cleanup s ?w1) = listeners w"
    using p li by (simp add: cleanup_listeners frame_simps)
      (auto simp: filter_id_conv dest: listeners_inv_no_proto)
  moreover have "\<forall>img. image1 p = Some img \<longrightarrow> clip_of (cleanup s ?w1) img = Clip_unset"
    using cleanup_effect(3) [OF p1] by simp
  moreover have "objs (cleanup s ?w1) s = Some (p\<lparr>isMobile := True, rafId := None, observer := None\<rparr>)"
    using p1 by (simp add: cleanup_objs)
  ultimately show ?thesis by (simp add: e)
qed

theorem onResize_to_mobile_teardown_witness:
  "listeners (onResize 0 ((onScroll 0 (snd (projr (construct ''main'' demo_world))))\<lparr>innerWidth := 700\<rparr>)) =
     [(Ev_scroll, Bound 0 OnScroll 0), (Ev_resize, Bound 1 OnResize 0)] \<and>
   frames (onResize 0 ((onScroll 0 (snd (projr (construct ''main'' demo_world))))\<lparr>innerWidth := 700\<rparr>)) = [] \<and>
   clip_of (onResize 0 ((onScroll 0 (snd (projr (construct ''main'' demo_world))))\<lparr>innerWidth := 700\<rparr>)) 101 =
     Clip_unset"
proof -
  let ?w = "(onScroll 0 (snd (projr (construct ''main'' demo_world))))\<lparr>innerWidth := 700\<rparr>"
  have o: "objs ?w 0 = Some \<lparr>sectionId = ''main'', section_el = Some 1, image1 = Some 101,
          isMobile = False, rafId = Some 1, isActive = False, observer = Some 0\<rparr>"
    and f: "frames ?w = [(1, 0)]"
    and l: "listeners ?w = [(Ev_scroll, Bound 0 OnScroll 0), (Ev_resize, Bound 1 OnResize 0)]"
    by (simp_all add: demo_world_def model_eval)
  have wf: "wf_world ?w"
    using o f l by (simp add: demo_world_def model_eval wf_world_def frames_inv_def
        listeners_inv_def heap_inv_def owners_inv_def)
  have n: "is_mobile_width (innerWidth ?w)" by (simp add: is_mobile_width_def)
  have t: "(\<forall>e \<in> set (frames (onResize 0 ?w)). snd e \<noteq> 0) \<and>
        listeners (onResize 0 ?w) = listeners ?w \<and> clip_of (onResize 0 ?w) 101 = Clip_unset"
    using onResize_to_mobile_teardown [OF wf o _ n] by simp
  moreover have "set (frames (onResize 0 ?w)) \<subseteq> set (frames ?w)"
    using o n by (auto simp: onResize_def Let_def cleanup_effect(1) frame_simps cancel_frame_def)
  ultimately have "frames (onResize 0 ?w) = []" using f by (cases "frames (onResize 0 ?w)") auto
  with t l show ?thesis by simp
qed

section \<open>The observer invariant\<close>

lemma observers_inv_cong:
  assumes "observers w' = observers w" and "next_obs w' = next_obs w"
    and "\<And>s. map_option (\<lambda>p. (observer p, isMobile p)) (objs w' s) =
              map_option (\<lambda>p. (observer p, isMobile p)) (objs w s)"
  shows "observers_inv w' = observers_inv w"
proof -
  have o: "\<And>s. map_option observer (objs w' s) = map_option observer (objs w s)"
  proof -
    fix s
    show "?thesis s" using assms(3) [of s] by (cases "objs w' s"; cases "objs w s") auto
  qed
  have m: "\<And>s. (\<forall>p. objs w' s = Some p \<longrightarrow> isMobile p \<longrightarrow> observer p = None) =
                (\<forall>p. objs w s = Some p \<longrightarrow> isMobile p \<longrightarrow> observer p = None)"
  proof -
    fix s
    show "?thesis s" using assms(3) [of s] by (cases "objs w' s"; cases "objs w s") auto
  qed
  show ?thesis unfolding observers_inv_def using assms(1,2) o m by simp
qed

lemma observers_inv_update [simp]: "observers_inv (update s w) = observers_inv w"
  by (rule observers_inv_cong) (simp_all add: frame_simps)

lemma observers_inv_onScroll: "observers_inv (onScroll s w) = observers_inv w"
  by (rule observers_inv_cong)
     (auto simp: onScroll_def Let_def case_prod_unfold frame_simps request_frame_def
      cancel_frame_def split: option.splits)

lemma observers_inv_io_callback: "observers_inv (io_callback s es w) = observers_inv w"
  unfolding io_callback_def
proof (induction es arbitrary: w)
  case (Cons e es)
  have "observers_inv (io_entry s w e) = observers_inv w"
    by (rule observers_inv_cong)
       (auto simp: io_entry_def Let_def frame_simps split: option.splits)
  with Cons.IH show ?case by simp
qed simp


lemma cleanup_next_obs: "next_obs (cleanup s w) = next_obs w"
  by (simp add: cleanup_def Let_def frame_simps remove_listener_def set_clip_def cancel_frame_def
      disconnect_def split: option.splits)

lemma observers_inv_switch_off:
  assumes inv: "observers_inv w"
  shows "observers_inv (cleanup s (modify_obj s (isMobile_update (\<lambda>_. b)) w))"
proof (cases "objs w s")
  case None
  then show ?thesis using inv by (simp add: modify_obj_def cleanup_def)
next
  case (Some p)
  let ?w1 = "modify_obj s (isMobile_update (\<lambda>_. b)) w"
  let ?w2 = "cleanup s ?w1"
  have p1: "objs ?w1 s = Some (p\<lparr>isMobile := b\<rparr>)" using Some by (simp add: frame_simps)
  have ob2: "observers ?w2 = (case observer p of None \<Rightarrow> observers w
                 | Some ob \<Rightarrow> observers (disconnect ob w))"
    using cleanup_effect(2) [OF p1] by (simp add: frame_simps disconnect_def split: option.splits)
  have o2: "objs ?w2 = (objs w)(s \<mapsto> p\<lparr>isMobile := b, rafId := None, observer := None\<rparr>)"
    using p1 Some by (simp add: cleanup_objs frame_simps)
  have n2: "next_obs ?w2 = next_obs w" by (simp add: cleanup_next_obs frame_simps)
  have i1: "\<forall>ob r. observers w ob = Some r \<longrightarrow> ob < next_obs w"
    and i2: "\<forall>ob r. observers w ob = Some r \<longrightarrow> obs_targets r \<noteq> [] \<longrightarrow>
        map_option observer (objs w (obs_owner r)) = Some (Some ob)"
    and i3: "\<forall>s p. objs w s = Some p \<longrightarrow> isMobile p \<longrightarrow> observer p = None"
    using inv by (simp_all add: observers_inv_def)
  show ?thesis
    unfolding observers_inv_def ob2 o2 n2
  proof (intro conjI allI impI)
    fix ob r assume "(case observer p of None \<Rightarrow> observers w
                 | Some ob \<Rightarrow> observers (disconnect ob w)) ob = Some r"
    then show "ob < next_obs w" using i1
      by (auto simp: disconnect_def split: option.splits if_splits)
  next
    fix ob r
    assume r: "(case observer p of None \<Rightarrow> observers w
                 | Some ob \<Rightarrow> observers (disconnect ob w)) ob = Some r"
      and live: "obs_targets r \<noteq> []"
    have w: "observers w ob = Some r" and ne: "observer p \<noteq> Some ob"
      using r live by (auto simp: disconnect_def split: option.splits if_splits)
    then have m: "map_option observer (objs w (obs_owner r)) = Some (Some ob)"
      using i2 live by blast
    then have "obs_owner r \<noteq> s" using Some ne by auto
    then show "map_option observer (((objs w)(s \<mapsto> p\<lparr>isMobile := b, rafId := None, observer := None\<rparr>))
                 (obs_owner r)) = Some (Some ob)" using m by simp
  next
    fix s' q assume "((objs w)(s \<mapsto> p\<lparr>isMobile := b, rafId := None, observer := None\<rparr>)) s' = Some q"
      and "isMobile q"
    then show "observer q = None" using i3 by (auto split: if_splits)
  qed
qed


lemma init_observer_fields:
  assumes "objs w s = Some p"
  shows "objs (init s w) =
           (if has_io w then (objs w)(s \<mapsto> p\<lparr>observer := Some (next_obs w)\<rparr>) else objs w)"
    and "next_obs (init s w) = (if has_io w then Suc (next_obs w) else next_obs w)"
    and "observers (init s w) =
           (if has_io w
            then (observers w)(next_obs w \<mapsto> \<lparr>obs_owner = s,
                   obs_targets = (case section_el p of None \<Rightarrow> [] | Some sec \<Rightarrow> [sec])\<rparr>)
            else observers w)"
  using assms
  by (auto simp: init_def Let_def case_prod_unfold frame_simps add_listener_def observe_def
      split: option.splits)

lemma observers_inv_init:
  assumes inv: "observers_inv w" and p: "objs w s = Some p"
    and none: "observer p = None" and desk: "\<not> isMobile p"
  shows "observers_inv (init s w)"
proof (cases "has_io w")
  case False
  then show ?thesis using inv init_observer_fields [OF p] by (simp add: observers_inv_def)
next
  case True
  have i1: "\<forall>ob r. observers w ob = Some r \<longrightarrow> ob < next_obs w"
    and i2: "\<forall>ob r. observers w ob = Some r \<longrightarrow> obs_targets r \<noteq> [] \<longrightarrow>
        map_option observer (objs w (obs_owner r)) = Some (Some ob)"
    and i3: "\<forall>s p. objs w s = Some p \<longrightarrow> isMobile p \<longrightarrow> observer p = None"
    using inv by (simp_all add: observers_inv_def)
  have old: "\<And>ob r. observers w ob = Some r \<Longrightarrow> obs_targets r \<noteq> [] \<Longrightarrow> obs_owner r \<noteq> s"
    using i2 p none by fastforce
  show ?thesis
    unfolding observers_inv_def init_observer_fields [OF p] if_P [OF True]
  proof (intro conjI allI impI)
    fix ob r assume "((observers w)(next_obs w \<mapsto> \<lparr>obs_owner = s,
                   obs_targets = (case section_el p of None \<Rightarrow> [] | Some sec \<Rightarrow> [sec])\<rparr>)) ob = Some r"
    then show "ob < Suc (next_obs w)" using i1 by (auto split: if_splits dest: less_SucI)
  next
    fix ob r assume r: "((observers w)(next_obs w \<mapsto> \<lparr>obs_owner = s,
                   obs_targets = (case section_el p of None \<Rightarrow> [] | Some sec \<Rightarrow> [sec])\<rparr>)) ob = Some r"
      and live: "obs_targets r \<noteq> []"
    show "map_option observer (((objs w)(s \<mapsto> p\<lparr>observer := Some (next_obs w)\<rparr>)) (obs_owner r)) =
          Some (Some ob)"
    proof (cases "ob = next_obs w")
      case True
      then show ?thesis using r by auto
    next
      case False
      then have "observers w ob = Some r" using r by simp
      then show ?thesis using i2 live old by auto
    qed
  next
    fix s' q assume "((objs w)(s \<mapsto> p\<lparr>observer := Some (next_obs w)\<rparr>)) s' = Some q" and "isMobile q"
    then show "observer q = None" using i3 desk by (auto split: if_splits)
  qed
qed


lemma observers_inv_desktop:
  assumes inv: "observers_inv w"
  shows "observers_inv (modify_obj s (isMobile_update (\<lambda>_. False)) w)"
proof -
  have o: "\<And>x. map_option observer (objs (modify_obj s (isMobile_update (\<lambda>_. False)) w) x) =
      map_option observer (objs w x)"
    by (simp add: frame_simps split: option.splits)
  show ?thesis unfolding observers_inv_def o
    using inv by (auto simp: observers_inv_def frame_simps split: option.splits if_splits)
qed

lemma observers_inv_onResize:
  assumes inv: "observers_inv w"
  shows "observers_inv (onResize s w)"
proof (cases "objs w s")
  case None
  then show ?thesis using inv by (simp add: onResize_def)
next
  case (Some p)
  show ?thesis
  proof (cases "isMobile p = is_mobile_width (innerWidth w)")
    case True
    have "modify_obj s (isMobile_update (\<lambda>_. is_mobile_width (innerWidth w))) w = w"
      using Some True [symmetric] by (intro modify_obj_same) (simp_all, cases p, simp)
    then show ?thesis using Some True inv by (simp add: onResize_def Let_def)
  next
    case False
    show ?thesis
    proof (cases "is_mobile_width (innerWidth w)")
      case True
      then show ?thesis using Some False inv by (simp add: onResize_def Let_def observers_inv_switch_off)
    next
      case desk: False
      have "isMobile p" using False desk by simp
      then have none: "observer p = None" using inv Some by (simp add: observers_inv_def)
      have o1: "objs (modify_obj s (isMobile_update (\<lambda>_. False)) w) s =
          Some (p\<lparr>isMobile := False\<rparr>)" using Some by (simp add: frame_simps)
      have "observers_inv (init s (modify_obj s (isMobile_update (\<lambda>_. False)) w))"
        by (rule observers_inv_init [OF observers_inv_desktop [OF inv] o1]) (simp_all add: none)
      then show ?thesis using Some False desk by (simp add: onResize_def Let_def)
    qed
  qed
qed

lemma observers_inv_construct:
  assumes wf: "wf_world w" and inv: "observers_inv w" and c: "construct sid w = Inr (self, w')"
  shows "observers_inv w'"
proof -
  obtain p w1 where s: "self = next_oid w"
    and w1: "w1 = w\<lparr>objs := (objs w)(self \<mapsto> p), next_oid := Suc self\<rparr>"
    and w': "w' = (if section_el p \<noteq> None \<and> image1 p \<noteq> None \<and> \<not> isMobile p
               then init self w1 else w1)"
    and "rafId p = None" and none: "observer p = None"
    and "isMobile p = is_mobile_width (innerWidth w)"
    and "image1 p \<noteq> None \<longrightarrow> section_el p \<noteq> None" and "sectionId p = sid"
    using c by (rule construct_InrE)
  have fresh: "objs w self = None"
    using wf s by (auto simp: wf_world_def heap_inv_def dest: spec [of _ "next_oid w"]
        split: option.splits)
  have "observers_inv w1"
    unfolding observers_inv_def
  proof (intro conjI allI impI)
    fix ob r assume "observers w1 ob = Some r"
    then show "ob < next_obs w1" using inv by (simp add: w1 observers_inv_def)
  next
    fix ob r assume r: "observers w1 ob = Some r" and live: "obs_targets r \<noteq> []"
    have m: "map_option observer (objs w (obs_owner r)) = Some (Some ob)"
      using inv r live unfolding observers_inv_def by (simp add: w1)
    then have "obs_owner r \<noteq> self" using fresh by auto
    then show "map_option observer (objs w1 (obs_owner r)) = Some (Some ob)"
      using m by (simp add: w1)
  next
    fix s' q assume "objs w1 s' = Some q" and "isMobile q"
    then show "observer q = None"
      using inv none by (auto simp: w1 observers_inv_def split: if_splits)
  qed
  moreover have "objs w1 self = Some p" by (simp add: w1)
  ultimately show ?thesis using none by (auto simp: w' intro: observers_inv_init)
qed

end
