(* ===== verification/Runtime.thy ===== *)
theory Runtime
  imports Controller
begin

text \<open>
  The host's event loop as it drives the controllers of src/assets/product-view.js:
  a window \<open>scroll\<close> or \<open>resize\<close> event invokes the registered listeners of its
  type, an animation frame runs the pending frame callbacks (the arrow function
  \<open>() => this.update()\<close> of line 54), and an IntersectionObserver notification
  runs its observer's callback (lines 28--34). Events are serialised (spec
  section 5): a run is a list of events applied left to right. Scrolling and
  resizing change the geometry and the window size before the listeners run.
  The theory proves that every event keeps the invariants of Controller.thy,
  hence that in every run an instance has at most one pending animation frame.
\<close>

section \<open>Dispatch\<close>

text \<open>
  Invoking a registered function: a bound \<open>onScroll\<close> or \<open>onResize\<close> runs the
  method on its instance. A prototype method is never registered (the code only
  registers bound functions; \<open>listeners_inv\<close>), so its case is unreachable.
\<close>

fun call_fn :: "fn \<Rightarrow> world \<Rightarrow> world" where
  "call_fn (Bound s OnScroll self) w = onScroll self w"
| "call_fn (Bound s OnResize self) w = onResize self w"
| "call_fn (Proto m) w = w"

text \<open>
  DOM event dispatch: the listeners of the event's type, in registration order,
  as they were when dispatch started; a listener removed meanwhile is skipped, one
  added meanwhile is not invoked.
\<close>

definition dispatch_one :: "evtype \<Rightarrow> world \<Rightarrow> evtype \<times> fn \<Rightarrow> world" where
  "dispatch_one t w l =
     (if fst l = t \<and> l \<in> set (listeners w) then call_fn (snd l) w else w)"

definition dispatch :: "evtype \<Rightarrow> world \<Rightarrow> world" where
  "dispatch t w = foldl (dispatch_one t) w (listeners w)"

text \<open>
  HTML's "run the animation frame callbacks": the handles pending when the frame
  starts, in request order; each still pending is removed and its callback run,
  one cancelled meanwhile is skipped, one requested meanwhile waits for the next
  frame.
\<close>

definition frame_one :: "world \<Rightarrow> handle \<times> oid \<Rightarrow> world" where
  "frame_one w e =
     (if e \<in> set (frames w)
      then update (snd e) (w\<lparr>frames := filter (\<lambda>e'. e' \<noteq> e) (frames w)\<rparr>)
      else w)"

definition run_frame :: "world \<Rightarrow> world" where
  "run_frame w = foldl frame_one w (frames w)"

text \<open>
  An IntersectionObserver notification with a list of entries (their
  \<open>isIntersecting\<close> flags): delivered only by an observer that still observes
  something (after \<open>disconnect()\<close> nothing is delivered).
\<close>

definition deliver_io :: "obs_id \<Rightarrow> bool list \<Rightarrow> world \<Rightarrow> world" where
  "deliver_io ob entries w =
     (case observers w ob of
        None \<Rightarrow> w
      | Some r \<Rightarrow> if obs_targets r = [] then w else io_callback (obs_owner r) entries w)"

section \<open>Events and runs\<close>

datatype event =
    Scroll "elem \<Rightarrow> rect"
  | Resize int int "elem \<Rightarrow> rect"
  | Frame
  | Intersect obs_id "bool list"

fun step :: "world \<Rightarrow> event \<Rightarrow> world" where
  "step w (Scroll g) = dispatch Ev_scroll (w\<lparr>rect_of := g\<rparr>)"
| "step w (Resize width height g) =
     dispatch Ev_resize (w\<lparr>innerWidth := width, innerHeight := height, rect_of := g\<rparr>)"
| "step w Frame = run_frame w"
| "step w (Intersect ob entries) = deliver_io ob entries w"

definition run :: "world \<Rightarrow> event list \<Rightarrow> world" where
  "run w evs = foldl step w evs"

section \<open>Dormant instances\<close>

text \<open>
  An instance is dormant when the host holds nothing that can call it back: no
  listener bound to it, no pending frame for it, no observer of it that still
  observes something. \<open>untouched\<close> relates a state to a later one when a
  dormant instance stays dormant and its fields do not change.
\<close>

definition dormant :: "oid \<Rightarrow> world \<Rightarrow> bool" where
  "dormant self w \<longleftrightarrow>
     (\<forall>l \<in> set (listeners w). fn_owner (snd l) \<noteq> Some self) \<and>
     (\<forall>e \<in> set (frames w). snd e \<noteq> self) \<and>
     (\<forall>ob r. observers w ob = Some r \<longrightarrow> obs_targets r \<noteq> [] \<longrightarrow> obs_owner r \<noteq> self)"

definition untouched :: "oid \<Rightarrow> world \<Rightarrow> world \<Rightarrow> bool" where
  "untouched self w w' \<longleftrightarrow> dormant self w \<longrightarrow> dormant self w' \<and> objs w' self = objs w self"

section \<open>An example geometry\<close>

text \<open>The section of the example page, 200 pixels below the viewport's top, 400 high.\<close>

definition demo_geometry :: "elem \<Rightarrow> rect" where
  "demo_geometry = (\<lambda>_. \<lparr>rect_top = 200, rect_bottom = 600, rect_height = 400\<rparr>)"

section \<open>Listeners of one instance\<close>

text \<open>
  \<open>own_listener s l\<close>: \<open>l\<close> is one of the two bound methods of instance
  \<open>s\<close>, under its own event type. \<open>leaked_pairs s n k\<close> lists the \<open>k\<close> pairs of
  listeners that \<open>k\<close> activations of \<open>s\<close> register from stamp \<open>n\<close> on.
  \<open>leak_state s w\<close>: a well-formed state in which \<open>s\<close> is in desktop mode
  and the window's listeners are pairs of its own methods.
\<close>

fun own_listener :: "oid \<Rightarrow> evtype \<times> fn \<Rightarrow> bool" where
  "own_listener s (Ev_scroll, Bound n OnScroll s') = (s' = s)"
| "own_listener s (Ev_resize, Bound n OnResize s') = (s' = s)"
| "own_listener s _ = False"

fun leaked_pairs :: "oid \<Rightarrow> nat \<Rightarrow> nat \<Rightarrow> (evtype \<times> fn) list" where
  "leaked_pairs s n 0 = []"
| "leaked_pairs s n (Suc k) =
     (Ev_scroll, Bound n OnScroll s) # (Ev_resize, Bound (Suc n) OnResize s) #
     leaked_pairs s (Suc (Suc n)) k"

definition leak_state :: "oid \<Rightarrow> world \<Rightarrow> bool" where
  "leak_state s w \<longleftrightarrow>
     wf_world w \<and> list_all (own_listener s) (listeners w) \<and>
     (case listeners w of (Ev_scroll, _) # (Ev_resize, _) # _ \<Rightarrow> True | _ \<Rightarrow> False) \<and>
     (case objs w s of None \<Rightarrow> False | Some p \<Rightarrow> \<not> isMobile p)"

section \<open>Runs keep the invariants\<close>

lemma wf_world_call_fn: "wf_world w \<Longrightarrow> wf_world (call_fn f w)"
  by (cases "(f, w)" rule: call_fn.cases) (simp_all add: wf_world_methods)

lemma wf_world_dispatch: "wf_world w \<Longrightarrow> wf_world (dispatch t w)"
  unfolding dispatch_def
  by (rule foldl_preserves) (simp_all add: dispatch_one_def wf_world_call_fn)

lemma wf_world_host_input [simp]:
  "wf_world (w\<lparr>rect_of := g\<rparr>) = wf_world w"
  "wf_world (w\<lparr>innerWidth := a\<rparr>) = wf_world w"
  "wf_world (w\<lparr>innerHeight := b\<rparr>) = wf_world w"
  by (simp_all add: wf_world_def frames_inv_def listeners_inv_def heap_inv_def owners_inv_def
      cong: option.case_cong)

lemma wf_world_frame_one: "wf_world w \<Longrightarrow> wf_world (frame_one w e)"
proof -
  assume wf: "wf_world w"
  let ?w' = "w\<lparr>frames := filter (\<lambda>e'. e' \<noteq> e) (frames w)\<rparr>"
  have "wf_world ?w'"
    using wf by (auto simp: wf_world_def frames_inv_def listeners_inv_def heap_inv_def owners_inv_def
        distinct_map_filter cong: option.case_cong)
  then show ?thesis
    using wf by (simp add: frame_one_def wf_world_methods)
qed

lemma wf_world_step: "wf_world w \<Longrightarrow> wf_world (step w ev)"
proof (cases ev)
  case Frame
  assume "wf_world w"
  then show ?thesis unfolding Frame step.simps run_frame_def
    by (rule foldl_preserves [rotated]) (simp add: wf_world_frame_one)
next
  case (Intersect ob es)
  assume "wf_world w"
  then show ?thesis
    by (simp add: Intersect deliver_io_def wf_world_methods split: option.splits)
qed (simp_all add: wf_world_dispatch)

lemma wf_world_run: "wf_world w \<Longrightarrow> wf_world (run w evs)"
  unfolding run_def by (rule foldl_preserves) (simp_all add: wf_world_step)

lemma frames_inv_at_most_one:
  assumes "frames_inv w"
  shows "length (filter (\<lambda>(h, o'). o' = self) (frames w)) \<le> 1"
proof (cases "\<exists>h p. objs w self = Some p \<and> rafId p = Some h")
  case True
  then obtain h p where p: "objs w self = Some p" and h: "rafId p = Some h" by blast
  have "\<forall>(a, b) \<in> set (frames w). b = self \<longrightarrow> a = h"
    using assms p h by (fastforce simp: frames_inv_def)
  moreover have "distinct (map fst (frames w))" using assms by (simp add: frames_inv_def)
  ultimately show ?thesis by (intro at_most_one_keyed)
next
  case False
  then have "filter (\<lambda>(h, o'). o' = self) (frames w) = []"
    using assms by (fastforce simp: frames_inv_def filter_empty_conv)
  then show ?thesis by simp
qed

text \<open>
  C9 (at most one pending frame per instance). From any well-formed state (in
  particular from a page on which instances were constructed), after any
  sequence of scroll, resize, frame and intersection events, each instance has at
  most one pending animation frame, however many scroll events arrived.
\<close>

theorem run_at_most_one_frame:
  assumes "wf_world w"
  shows "length (filter (\<lambda>(h, o'). o' = self) (frames (run w evs))) \<le> 1"
proof -
  have "frames_inv (run w evs)" using wf_world_run [OF assms] by (simp add: wf_world_def)
  then show ?thesis by (rule frames_inv_at_most_one)
qed


lemma demo_construct:
  "construct ''main'' demo_world = Inr (0, snd (projr (construct ''main'' demo_world)))"
  by (simp add: demo_world_def construct_def Let_def)

lemma wf_demo: "wf_world (snd (projr (construct ''main'' demo_world)))"
proof -
  have "wf_world demo_world"
    by (simp add: demo_world_def wf_world_def frames_inv_def listeners_inv_def heap_inv_def
        owners_inv_def)
  then show ?thesis using demo_construct by (rule wf_construct)
qed

theorem run_at_most_one_frame_witness:
  "wf_world (snd (projr (construct ''main'' demo_world))) \<and>
   length (filter (\<lambda>(h, o'). o' = 0)
     (frames (run (snd (projr (construct ''main'' demo_world)))
        [Scroll demo_geometry, Scroll demo_geometry, Scroll demo_geometry]))) \<le> 1"
  using wf_demo run_at_most_one_frame [OF wf_demo] by simp

lemma frames_frame_one: "set (frames (frame_one w e)) = set (frames w) - {e}"
  by (auto simp: frame_one_def frame_simps)

lemma frames_foldl_frame_one:
  "set (frames (foldl frame_one w es)) = set (frames w) - set es"
  by (induction es arbitrary: w) (auto simp: frames_frame_one)

text \<open>
  C19 (no stale frame callbacks). Running an animation frame empties the frame
  queue: every callback pending when the frame starts is removed (and run, unless
  cancelled meanwhile), and \<open>update()\<close> never requests another frame.
\<close>

theorem frame_clears_queue: "frames (step w Frame) = []"
  using frames_foldl_frame_one [of w "frames w"] by (simp add: run_frame_def)


section \<open>Dormant instances stay untouched\<close>

lemma untouched_refl: "untouched self w w"
  by (simp add: untouched_def)

lemma untouched_trans: "untouched self a b \<Longrightarrow> untouched self b c \<Longrightarrow> untouched self a c"
  by (simp add: untouched_def)

lemma untouched_others:
  assumes "o' \<noteq> self"
  shows "untouched self w (update o' w)" "untouched self w (modify_obj o' f w)"
    "untouched self w (onScroll o' w)" "untouched self w (cleanup o' w)"
    "untouched self w (init o' w)"
proof -
  show u: "\<And>w. untouched self w (update o' w)"
    by (simp add: untouched_def dormant_def frame_simps)
  show m: "\<And>w f. untouched self w (modify_obj o' f w)"
    using assms by (simp add: untouched_def dormant_def frame_simps split: option.splits)
  show "untouched self w (onScroll o' w)"
    using assms by (auto simp: untouched_def dormant_def onScroll_def Let_def case_prod_unfold
        frame_simps request_frame_def cancel_frame_def split: option.splits)
  show "untouched self w (cleanup o' w)"
    using assms by (auto simp: untouched_def dormant_def cleanup_def Let_def frame_simps
        remove_listener_def set_clip_def cancel_frame_def disconnect_def split: option.splits)
  show "untouched self w (init o' w)"
    using assms by (auto simp: untouched_def dormant_def init_def Let_def case_prod_unfold
        frame_simps add_listener_def observe_def split: option.splits)
qed


lemma untouched_onResize: "o' \<noteq> self \<Longrightarrow> untouched self w (onResize o' w)"
proof (cases "objs w o'")
  case None
  then show ?thesis by (simp add: onResize_def untouched_refl)
next
  case (Some p)
  assume ne: "o' \<noteq> self"
  let ?w1 = "modify_obj o' (isMobile_update (\<lambda>_. is_mobile_width (innerWidth w))) w"
  have 1: "untouched self w ?w1" using ne by (rule untouched_others)
  have "untouched self ?w1 (cleanup o' ?w1)" "untouched self ?w1 (init o' ?w1)"
    "untouched self ?w1 (update o' ?w1)" using ne by (rule untouched_others)+
  with 1 Some show ?thesis
    by (auto simp: onResize_def Let_def intro: untouched_trans)
qed

lemma untouched_io_callback: "o' \<noteq> self \<Longrightarrow> untouched self w (io_callback o' es w)"
  unfolding io_callback_def
proof (rule foldl_preserves_rel [where R = "untouched self"])
  fix w b assume ne: "o' \<noteq> self"
  let ?w1 = "modify_obj o' (isActive_update (\<lambda>_. b)) w"
  have "untouched self w ?w1" "untouched self ?w1 (update o' ?w1)"
    using ne by (rule untouched_others)+
  then show "untouched self w (io_entry o' w b)"
    by (auto simp: io_entry_def Let_def intro: untouched_trans)
qed (auto intro: untouched_trans untouched_refl)

lemma untouched_call_fn:
  "fn_owner f \<noteq> Some self \<Longrightarrow> untouched self w (call_fn f w)"
  by (cases "(f, w)" rule: call_fn.cases)
     (auto simp: untouched_refl intro: untouched_others untouched_onResize)

lemma untouched_dispatch: "untouched self w (dispatch t w)"
  unfolding dispatch_def
proof (rule foldl_preserves_rel [where R = "untouched self"])
  fix w l
  show "untouched self w (dispatch_one t w l)"
  proof (cases "fst l = t \<and> l \<in> set (listeners w)")
    case True
    show ?thesis
    proof (cases "dormant self w")
      case True
      with \<open>fst l = t \<and> l \<in> set (listeners w)\<close> have "fn_owner (snd l) \<noteq> Some self"
        by (auto simp: dormant_def)
      then show ?thesis using True
        by (auto simp: dispatch_one_def untouched_refl intro: untouched_call_fn)
    next
      case False
      then show ?thesis by (simp add: untouched_def)
    qed
  next
    case False
    then show ?thesis by (auto simp: dispatch_one_def untouched_refl)
  qed
qed (auto intro: untouched_trans untouched_refl)

lemma untouched_frame_one: "untouched self w (frame_one w e)"
proof (cases "e \<in> set (frames w) \<and> dormant self w")
  case True
  then have ne: "snd e \<noteq> self" by (auto simp: dormant_def)
  let ?w1 = "w\<lparr>frames := filter (\<lambda>e'. e' \<noteq> e) (frames w)\<rparr>"
  have "untouched self w ?w1" by (auto simp: untouched_def dormant_def)
  moreover have "untouched self ?w1 (update (snd e) ?w1)" using ne by (rule untouched_others)
  ultimately show ?thesis using True by (auto simp: frame_one_def intro: untouched_trans)
next
  case False
  then show ?thesis by (auto simp: frame_one_def untouched_def)
qed

lemma untouched_step: "untouched self w (step w ev)"
proof (cases ev)
  case (Scroll g)
  have "untouched self w (w\<lparr>rect_of := g\<rparr>)" by (simp add: untouched_def dormant_def)
  then show ?thesis using Scroll by (auto intro: untouched_trans untouched_dispatch)
next
  case (Resize a b g)
  have "untouched self w (w\<lparr>innerWidth := a, innerHeight := b, rect_of := g\<rparr>)"
    by (simp add: untouched_def dormant_def)
  then show ?thesis using Resize by (auto intro: untouched_trans untouched_dispatch)
next
  case Frame
  have "untouched self w (run_frame w)"
    unfolding run_frame_def
    by (rule foldl_preserves_rel) (auto intro: untouched_frame_one untouched_trans untouched_refl)
  then show ?thesis using Frame by simp
next
  case (Intersect ob es)
  show ?thesis
  proof (cases "dormant self w")
    case True
    then show ?thesis using Intersect
      by (auto simp: deliver_io_def untouched_refl dormant_def [of self w]
          intro!: untouched_io_callback split: option.splits)
  next
    case False
    then show ?thesis by (simp add: untouched_def)
  qed
qed

lemma untouched_run: "untouched self w (run w evs)"
  unfolding run_def
  by (rule foldl_preserves_rel) (auto intro: untouched_step untouched_trans untouched_refl)

section \<open>Listener growth across mode switches\<close>

lemma dispatch_resize_same_mode:
  assumes p: "objs w s = Some q" and same: "isMobile q = is_mobile_width (innerWidth w)"
    and own: "own_listener s l"
  shows "dispatch_one Ev_resize w l = w \<or> dispatch_one Ev_resize w l = update s w"
proof -
  have "modify_obj s (isMobile_update (\<lambda>_. is_mobile_width (innerWidth w))) w = w"
    using p same [symmetric] by (intro modify_obj_same) (simp_all, cases q, simp)
  then have "onResize s w = update s w" using p same by (simp add: onResize_def Let_def)
  then show ?thesis using own
    by (cases "(s, l)" rule: own_listener.cases) (auto simp: dispatch_one_def)
qed

lemma fold_resize_same_mode:
  assumes "objs w s = Some q" and "isMobile q = is_mobile_width (innerWidth w)"
    and "list_all (own_listener s) L"
  shows "listeners (foldl (dispatch_one Ev_resize) w L) = listeners w \<and>
         objs (foldl (dispatch_one Ev_resize) w L) = objs w \<and>
         innerWidth (foldl (dispatch_one Ev_resize) w L) = innerWidth w \<and>
         fn_stamp (foldl (dispatch_one Ev_resize) w L) = fn_stamp w"
  using assms
proof (induction L arbitrary: w)
  case Nil
  then show ?case by simp
next
  case (Cons l L)
  have "dispatch_one Ev_resize w l = w \<or> dispatch_one Ev_resize w l = update s w"
    using Cons.prems by (intro dispatch_resize_same_mode) simp_all
  then show ?case
    using Cons.IH [of "dispatch_one Ev_resize w l"] Cons.prems by (auto simp: frame_simps)
qed

lemma step_resize_first:
  assumes "listeners w = (Ev_scroll, a) # (Ev_resize, Bound n OnResize s) # rest"
  shows "step w (Resize x y g) =
           foldl (dispatch_one Ev_resize)
             (onResize s (w\<lparr>innerWidth := x, innerHeight := y, rect_of := g\<rparr>)) rest"
  using assms by (simp add: dispatch_def dispatch_one_def)

lemma resize_to_mobile:
  assumes wf: "wf_world w"
    and L: "listeners w = (Ev_scroll, a) # (Ev_resize, Bound n OnResize s) # rest"
    and own: "list_all (own_listener s) rest"
    and p: "objs w s = Some p" and dp: "\<not> isMobile p" and mob: "is_mobile_width m"
  shows "listeners (step w (Resize m y g)) = listeners w \<and>
         objs (step w (Resize m y g)) s = Some (p\<lparr>isMobile := True, rafId := None, observer := None\<rparr>) \<and>
         fn_stamp (step w (Resize m y g)) = fn_stamp w"
proof -
  define w2 where "w2 = cleanup s (modify_obj s (isMobile_update (\<lambda>_. True))
                          (w\<lparr>innerWidth := m, innerHeight := y, rect_of := g\<rparr>))"
  have "onResize s (w\<lparr>innerWidth := m, innerHeight := y, rect_of := g\<rparr>) = w2"
    using p dp mob by (simp add: onResize_def Let_def w2_def)
  then have st: "step w (Resize m y g) = foldl (dispatch_one Ev_resize) w2 rest"
    using step_resize_first [OF L] by simp
  have "listeners_inv w" using wf by (simp add: wf_world_def)
  then have l2: "listeners w2 = listeners w"
    using p by (simp add: w2_def cleanup_listeners frame_simps)
      (auto simp: filter_id_conv dest: listeners_inv_no_proto)
  have o2: "objs w2 s = Some (p\<lparr>isMobile := True, rafId := None, observer := None\<rparr>)"
    and iw2: "innerWidth w2 = m" and fs2: "fn_stamp w2 = fn_stamp w"
    using p by (simp_all add: w2_def cleanup_objs cleanup_fn_stamp methods_innerWidth frame_simps)
  show ?thesis
    unfolding st using fold_resize_same_mode [OF o2 _ own] iw2 mob l2 o2 fs2 by simp
qed

lemma resize_to_desktop:
  assumes wf: "wf_world w"
    and L: "listeners w = (Ev_scroll, a) # (Ev_resize, Bound n OnResize s) # rest"
    and own: "list_all (own_listener s) rest"
    and p: "objs w s = Some p" and mp: "isMobile p" and desk: "\<not> is_mobile_width d"
  shows "listeners (step w (Resize d y g)) =
           listeners w @ [(Ev_scroll, Bound (fn_stamp w) OnScroll s),
                          (Ev_resize, Bound (Suc (fn_stamp w)) OnResize s)] \<and>
         map_option isMobile (objs (step w (Resize d y g)) s) = Some False \<and>
         fn_stamp (step w (Resize d y g)) = Suc (Suc (fn_stamp w))"
proof -
  define w4 where "w4 = modify_obj s (isMobile_update (\<lambda>_. False))
                          (w\<lparr>innerWidth := d, innerHeight := y, rect_of := g\<rparr>)"
  have "onResize s (w\<lparr>innerWidth := d, innerHeight := y, rect_of := g\<rparr>) = init s w4"
    using p mp desk by (simp add: onResize_def Let_def w4_def)
  then have st: "step w (Resize d y g) = foldl (dispatch_one Ev_resize) (init s w4) rest"
    using step_resize_first [OF L] by simp
  have "wf_world (w\<lparr>innerWidth := d, innerHeight := y, rect_of := g\<rparr>)" using wf by simp
  then have inv4: "listeners_inv w4" by (simp add: w4_def wf_world_def)
  have l5: "listeners (init s w4) = listeners w @ [(Ev_scroll, Bound (fn_stamp w) OnScroll s),
                          (Ev_resize, Bound (Suc (fn_stamp w)) OnResize s)]"
    and fs5: "fn_stamp (init s w4) = Suc (Suc (fn_stamp w))"
    using init_listeners [OF inv4, of s] by (simp_all add: w4_def frame_simps)
  have "map_option isMobile (objs (init s w4) s) = Some False"
    using p by (simp add: w4_def init_isMobile frame_simps)
  then obtain q where q: "objs (init s w4) s = Some q" and dq: "\<not> isMobile q" by auto
  have iw5: "innerWidth (init s w4) = d" by (simp add: w4_def methods_innerWidth frame_simps)
  show ?thesis
    unfolding st using fold_resize_same_mode [OF q _ own] dq iw5 desk l5 q fs5 by simp
qed

lemma leak_cycle:
  assumes ls: "leak_state s w" and mob: "is_mobile_width m" and desk: "\<not> is_mobile_width d"
  shows "leak_state s (step (step w (Resize m hgt1 g)) (Resize d hgt2 g)) \<and>
         listeners (step (step w (Resize m hgt1 g)) (Resize d hgt2 g)) =
           listeners w @ [(Ev_scroll, Bound (fn_stamp w) OnScroll s),
                          (Ev_resize, Bound (Suc (fn_stamp w)) OnResize s)] \<and>
         fn_stamp (step (step w (Resize m hgt1 g)) (Resize d hgt2 g)) = Suc (Suc (fn_stamp w))"
proof -
  from ls obtain p where wf: "wf_world w" and own: "list_all (own_listener s) (listeners w)"
    and p: "objs w s = Some p" and dp: "\<not> isMobile p"
    by (auto simp: leak_state_def split: option.splits)
  from ls obtain a b rest where L0: "listeners w = (Ev_scroll, a) # (Ev_resize, b) # rest"
    by (auto simp: leak_state_def split: list.splits prod.splits evtype.splits)
  with own have "own_listener s (Ev_resize, b)" and own_rest: "list_all (own_listener s) rest"
    by simp_all
  then obtain n where "b = Bound n OnResize s"
    by (cases "(s, (Ev_resize, b))" rule: own_listener.cases) auto
  with L0 have L: "listeners w = (Ev_scroll, a) # (Ev_resize, Bound n OnResize s) # rest" by simp
  define w3 where "w3 = step w (Resize m hgt1 g)"
  have m3: "listeners w3 = listeners w \<and>
      objs w3 s = Some (p\<lparr>isMobile := True, rafId := None, observer := None\<rparr>) \<and>
      fn_stamp w3 = fn_stamp w"
    unfolding w3_def using wf L own_rest p dp mob by (rule resize_to_mobile)
  have wf3: "wf_world w3" unfolding w3_def using wf by (rule wf_world_step)
  have d6: "listeners (step w3 (Resize d hgt2 g)) =
           listeners w3 @ [(Ev_scroll, Bound (fn_stamp w3) OnScroll s),
                          (Ev_resize, Bound (Suc (fn_stamp w3)) OnResize s)] \<and>
         map_option isMobile (objs (step w3 (Resize d hgt2 g)) s) = Some False \<and>
         fn_stamp (step w3 (Resize d hgt2 g)) = Suc (Suc (fn_stamp w3))"
  proof -
    have L3: "listeners w3 = (Ev_scroll, a) # (Ev_resize, Bound n OnResize s) # rest"
      using m3 L by simp
    have o3: "objs w3 s = Some (p\<lparr>isMobile := True, rafId := None, observer := None\<rparr>)"
      using m3 by simp
    have "isMobile (p\<lparr>isMobile := True, rafId := None, observer := None\<rparr>)" by simp
    then show ?thesis using resize_to_desktop [OF wf3 L3 own_rest o3 _ desk] by simp
  qed
  have wf6: "wf_world (step w3 (Resize d hgt2 g))" using wf3 by (rule wf_world_step)
  have e: "step (step w (Resize m hgt1 g)) (Resize d hgt2 g) = step w3 (Resize d hgt2 g)"
    by (simp only: w3_def)
  show ?thesis unfolding e
    using d6 wf6 m3 own L by (auto simp: leak_state_def simp del: step.simps)
qed


lemma length_leaked_pairs [simp]: "length (leaked_pairs s n k) = 2 * k"
  by (induction k arbitrary: n) simp_all

lemma leak_cycles:
  assumes "leak_state s w" and "is_mobile_width m" and "\<not> is_mobile_width d"
  shows "leak_state s (run w (concat (replicate k [Resize m hgt1 g, Resize d hgt2 g]))) \<and>
         listeners (run w (concat (replicate k [Resize m hgt1 g, Resize d hgt2 g]))) =
           listeners w @ leaked_pairs s (fn_stamp w) k"
  using assms(1)
proof (induction k arbitrary: w)
  case 0
  then show ?case by (simp add: run_def)
next
  case (Suc k)
  let ?w' = "step (step w (Resize m hgt1 g)) (Resize d hgt2 g)"
  have c: "leak_state s ?w' \<and>
      listeners ?w' = listeners w @ [(Ev_scroll, Bound (fn_stamp w) OnScroll s),
                          (Ev_resize, Bound (Suc (fn_stamp w)) OnResize s)] \<and>
      fn_stamp ?w' = Suc (Suc (fn_stamp w))"
    using Suc.prems assms(2,3) by (rule leak_cycle)
  have "run w (concat (replicate (Suc k) [Resize m hgt1 g, Resize d hgt2 g])) =
        run ?w' (concat (replicate k [Resize m hgt1 g, Resize d hgt2 g]))"
    by (simp add: run_def del: step.simps)
  with c Suc.IH [of ?w'] show ?case by simp
qed

text \<open>
  C24 (listeners grow without bound). Take a desktop instance whose listeners are
  pairs of its own bound methods, and resize the window back and forth across the
  breakpoint \<open>k\<close> times. Each return to desktop width registers a fresh pair of
  bound listeners and the switch to mobile removes none, so after \<open>k\<close> cycles
  the window holds \<open>2 k\<close> more listeners, exactly the pairs the \<open>k\<close>
  activations bound. Every stale listener still runs on each later resize.
\<close>

theorem listeners_grow_per_cycle:
  assumes wf: "wf_world w" and p: "objs w s = Some p" and desk: "\<not> isMobile p"
    and own: "list_all (own_listener s) (listeners w)"
    and L: "listeners w = (Ev_scroll, a) # (Ev_resize, b) # rest"
    and mob: "is_mobile_width m" and wide: "\<not> is_mobile_width d"
  shows "listeners (run w (concat (replicate k [Resize m hgt1 g, Resize d hgt2 g]))) =
           listeners w @ leaked_pairs s (fn_stamp w) k \<and>
         length (listeners (run w (concat (replicate k [Resize m hgt1 g, Resize d hgt2 g])))) =
           length (listeners w) + 2 * k"
proof -
  have "leak_state s w" using wf p desk own L by (simp add: leak_state_def)
  then show ?thesis using leak_cycles [OF _ mob wide] by simp
qed

theorem listeners_grow_per_cycle_witness:
  "length (listeners (run (snd (projr (construct ''main'' demo_world)))
     (concat (replicate 3 [Resize 700 800 demo_geometry, Resize 900 800 demo_geometry])))) = 8"
proof -
  let ?w = "snd (projr (construct ''main'' demo_world))"
  have p: "objs ?w 0 = Some \<lparr>sectionId = ''main'', section_el = Some 1, image1 = Some 101,
          isMobile = False, rafId = None, isActive = False, observer = Some 0\<rparr>"
    and L: "listeners ?w = [(Ev_scroll, Bound 0 OnScroll 0), (Ev_resize, Bound 1 OnResize 0)]"
    by (simp_all add: demo_world_def model_eval)
  have own: "list_all (own_listener 0) (listeners ?w)" using L by simp
  have mob: "is_mobile_width 700" and wide: "\<not> is_mobile_width 900"
    by (simp_all add: is_mobile_width_def)
  show ?thesis
    using listeners_grow_per_cycle [OF wf_demo p _ own L mob wide, of 3 800 demo_geometry 800] L
    by simp
qed

section \<open>Runs keep the observer invariant\<close>

lemma observers_inv_call_fn: "observers_inv w \<Longrightarrow> observers_inv (call_fn f w)"
  by (cases "(f, w)" rule: call_fn.cases)
     (simp_all add: observers_inv_onScroll observers_inv_onResize)

lemma observers_inv_dispatch: "observers_inv w \<Longrightarrow> observers_inv (dispatch t w)"
  unfolding dispatch_def
  by (rule foldl_preserves) (simp_all add: dispatch_one_def observers_inv_call_fn)

lemma observers_inv_host_input [simp]:
  "observers_inv (w\<lparr>rect_of := g\<rparr>) = observers_inv w"
  "observers_inv (w\<lparr>innerWidth := a\<rparr>) = observers_inv w"
  "observers_inv (w\<lparr>innerHeight := b\<rparr>) = observers_inv w"
  "observers_inv (w\<lparr>frames := fs\<rparr>) = observers_inv w"
  "observers_inv (w\<lparr>sel_section := ss, sel_image := si\<rparr>) = observers_inv w"
  "observers_inv (log_error msg w) = observers_inv w"
  by (simp_all add: observers_inv_def log_error_def)

lemma observers_inv_step: "observers_inv w \<Longrightarrow> observers_inv (step w ev)"
proof (cases ev)
  case Frame
  assume inv: "observers_inv w"
  show ?thesis unfolding Frame step.simps run_frame_def
    by (rule foldl_preserves [where P = observers_inv]) (simp_all add: frame_one_def inv)
next
  case (Intersect ob es)
  assume "observers_inv w"
  then show ?thesis
    by (simp add: Intersect deliver_io_def observers_inv_io_callback split: option.splits)
qed (simp_all add: observers_inv_dispatch)

end
