(* ===== verification/Bootstrap.thy ===== *)
theory Bootstrap
  imports Runtime
begin

text \<open>
  The script's top level, src/assets/product-view.js lines 134--173:
  \<open>initProductViewSections()\<close> constructs one instance per tagged section
  element, catching and logging each constructor's exception; the script runs it
  when the document is ready (at once, or on \<open>DOMContentLoaded\<close>), again after
  500 ms, and, in the Shopify theme editor, constructs an instance for each loaded
  section 100 ms after its \<open>shopify:section:load\<close> event. The page state
  \<open>page\<close> holds the program state of Controller.thy, the result of the
  document query for tagged sections, and the script's pending callbacks (the
  \<open>DOMContentLoaded\<close> handler, timers, the section-load handler).
\<close>

section \<open>initProductViewSections\<close>

text \<open>
  Lines 141--145 and 166--170: \<open>new ProductViewParallax(sectionId)\<close> inside
  \<open>try\<close>; an exception is caught and logged with the given message, the state
  the constructor had reached is the state before it (the constructor throws
  before any effect).
\<close>

definition try_new :: "string \<Rightarrow> string \<Rightarrow> world \<Rightarrow> world" where
  "try_new msg sid w =
     (case construct sid w of Inl e \<Rightarrow> log_error msg w | Inr (_, w') \<Rightarrow> w')"

text \<open>
  Lines 138--147: one tagged element, with its \<open>data-section-id\<close> value; the
  empty string is falsy and skipped.
\<close>

definition init_one :: "world \<Rightarrow> elem \<times> string \<Rightarrow> world" where
  "init_one w s =
     (let sectionId = snd s
      in if sectionId \<noteq> [] then try_new ''Error initializing ProductViewParallax:'' sectionId w
         else w)"

text \<open>
  Lines 135--148: \<open>sections\<close> is the static list
  \<open>document.querySelectorAll('[class*="product-view-"][data-section-id]')\<close>,
  given as the elements and their attribute values in document order.
\<close>

definition initProductViewSections :: "(elem \<times> string) list \<Rightarrow> world \<Rightarrow> world" where
  "initProductViewSections sections w = foldl init_one w sections"

section \<open>The page and the script's callbacks\<close>

text \<open>The two kinds of timer callback the script schedules.\<close>

datatype task = Init_all | Construct_in_editor string

record page =
  pw :: world
  tagged :: "(elem \<times> string) list"
  loading :: bool
  design_mode :: bool
  dcl_pending :: bool
  timers :: "(nat \<times> task) list"
  section_load_listener :: bool

text \<open>
  \<open>tagged\<close> is what the query of line 136 returns; \<open>loading\<close> is
  \<open>document.readyState === 'loading'\<close>; \<open>design_mode\<close> is
  \<open>typeof Shopify !== 'undefined' && Shopify.designMode\<close>; \<open>timers\<close> holds
  the pending \<open>setTimeout\<close> callbacks with their delays in milliseconds.
\<close>

definition run_task :: "task \<Rightarrow> page \<Rightarrow> page" where
  "run_task t p =
     (case t of
        Init_all \<Rightarrow> p\<lparr>pw := initProductViewSections (tagged p) (pw p)\<rparr>
      | Construct_in_editor sid \<Rightarrow>
          p\<lparr>pw := try_new ''Error initializing ProductViewParallax in editor:'' sid (pw p)\<rparr>)"

text \<open>Lines 150--173, run once when the script is evaluated.\<close>

definition script_start :: "page \<Rightarrow> page" where
  "script_start p0 =
     (let p1 = (if loading p0 then p0\<lparr>dcl_pending := True\<rparr>
                else run_task Init_all p0);
          p2 = p1\<lparr>timers := timers p1 @ [(500, Init_all)]\<rparr>
      in if design_mode p2 then p2\<lparr>section_load_listener := True\<rparr> else p2)"

section \<open>Page events\<close>

text \<open>
  What can happen on the page after the script ran: an event of Runtime.thy, the
  document becoming ready, the expiry of the \<open>i\<close>-th pending timer (timers may
  expire in any order the host chooses among their deadlines), a change of the
  document (the editor inserting a section's markup: new tagged elements and new
  answers to the two selector queries), the editor's \<open>shopify:section:load\<close>
  event for a section.
\<close>

datatype page_event =
    Host event
  | Dom_ready
  | Timer_expires nat
  | Dom_change "(elem \<times> string) list" "string \<Rightarrow> dom_error + elem option" "elem \<Rightarrow> elem option"
  | Section_load string

fun page_step :: "page \<Rightarrow> page_event \<Rightarrow> page" where
  "page_step p (Host ev) = p\<lparr>pw := step (pw p) ev\<rparr>"
| "page_step p Dom_ready =
     (if dcl_pending p then run_task Init_all (p\<lparr>dcl_pending := False, loading := False\<rparr>)
      else p\<lparr>loading := False\<rparr>)"
| "page_step p (Timer_expires i) =
     (if i < length (timers p)
      then run_task (snd (timers p ! i)) (p\<lparr>timers := take i (timers p) @ drop (Suc i) (timers p)\<rparr>)
      else p)"
| "page_step p (Dom_change secs sel_s sel_i) =
     p\<lparr>tagged := secs, pw := (pw p)\<lparr>sel_section := sel_s, sel_image := sel_i\<rparr>\<rparr>"
| "page_step p (Section_load sid) =
     (if section_load_listener p
      then p\<lparr>timers := timers p @ [(100, Construct_in_editor sid)]\<rparr>
      else p)"

definition page_run :: "page \<Rightarrow> page_event list \<Rightarrow> page" where
  "page_run p evs = foldl page_step p evs"

text \<open>
  \<open>kept self w w'\<close>: from a well-formed state in which \<open>self\<close> is allocated and
  dormant, \<open>w'\<close> is well-formed, \<open>self\<close> is still dormant and unchanged.
\<close>

definition kept :: "oid \<Rightarrow> world \<Rightarrow> world \<Rightarrow> bool" where
  "kept self w w' \<longleftrightarrow>
     wf_world w \<and> objs w self \<noteq> None \<and> dormant self w \<longrightarrow>
     wf_world w' \<and> dormant self w' \<and> objs w' self = objs w self"

text \<open>Both invariants of Controller.thy.\<close>

definition safe_world :: "world \<Rightarrow> bool" where
  "safe_world w \<longleftrightarrow> wf_world w \<and> observers_inv w"

section \<open>Example pages\<close>

text \<open>
  The example page of Controller.thy, already loaded, with its section tagged
  \<open>main\<close>.
\<close>

definition demo_page :: page where
  "demo_page = \<lparr>pw = demo_world, tagged = [(1, ''main'')], loading = False,
     design_mode = False, dcl_pending = False, timers = [], section_load_listener = False\<rparr>"

text \<open>
  The number of instances constructed for a section id: the allocated identities
  whose \<open>sectionId\<close> is \<open>sid\<close>.
\<close>

definition instances_of :: "string \<Rightarrow> world \<Rightarrow> nat" where
  "instances_of sid w =
     length (filter (\<lambda>o'. map_option sectionId (objs w o') = Some sid) [0..<next_oid w])"

section \<open>Properties of the bootstrap\<close>

lemma init_host_fields [frame_simps]:
  "sel_section (init self w) = sel_section w" "console (init self w) = console w"
  "next_oid (init self w) = next_oid w"
  by (simp_all add: init_def Let_def case_prod_unfold frame_simps add_listener_def observe_def
      split: option.splits)

lemma try_new_fields:
  "sel_section (try_new msg sid w) = sel_section w"
  "console (try_new msg sid w) = console w @ (if isl (sel_section w sid) then [msg] else [])"
  "next_oid (try_new msg sid w) = next_oid w + (if isl (sel_section w sid) then 0 else 1)"
  by (auto simp: try_new_def construct_def Let_def log_error_def frame_simps split: sum.splits)

text \<open>
  C10 (per-section isolation). Running \<open>initProductViewSections\<close> over any list
  of tagged elements logs exactly one message per element with a non-empty id
  whose constructor throws, and allocates exactly one instance per element with a
  non-empty id whose constructor does not: a failing section never prevents the
  others from initialising.
\<close>

theorem init_sections_resilient:
  "console (initProductViewSections secs w) =
     console w @ replicate (length (filter (\<lambda>s. snd s \<noteq> [] \<and> isl (sel_section w (snd s))) secs))
                   ''Error initializing ProductViewParallax:'' \<and>
   next_oid (initProductViewSections secs w) =
     next_oid w + length (filter (\<lambda>s. snd s \<noteq> [] \<and> \<not> isl (sel_section w (snd s))) secs)"
proof (induction secs arbitrary: w)
  case Nil
  then show ?case by (simp add: initProductViewSections_def)
next
  case (Cons s secs)
  have "sel_section (init_one w s) = sel_section w"
    by (simp add: init_one_def Let_def try_new_fields)
  with Cons.IH [of "init_one w s"] show ?case
    by (auto simp: initProductViewSections_def init_one_def Let_def try_new_fields
        replicate_app_Cons_same)
qed


lemma init_sectionId:
  "map_option sectionId (objs (init self w) o') = map_option sectionId (objs w o')"
  by (auto simp: init_def Let_def case_prod_unfold frame_simps add_listener_def observe_def
      split: option.splits)

lemma construct_sectionId:
  assumes c: "construct sid w = Inr (self, w')"
  shows "self = next_oid w" "next_oid w' = Suc (next_oid w)"
    "map_option sectionId (objs w' o') =
       (if o' = next_oid w then Some sid else map_option sectionId (objs w o'))"
proof -
  obtain p w1 where s: "self = next_oid w"
    and w1: "w1 = w\<lparr>objs := (objs w)(self \<mapsto> p), next_oid := Suc self\<rparr>"
    and w': "w' = (if section_el p \<noteq> None \<and> image1 p \<noteq> None \<and> \<not> isMobile p
               then init self w1 else w1)"
    and "rafId p = None" and "observer p = None"
    and "isMobile p = is_mobile_width (innerWidth w)"
    and "image1 p \<noteq> None \<longrightarrow> section_el p \<noteq> None" and sid: "sectionId p = sid"
    using c by (rule construct_InrE)
  have e: "map_option sectionId (objs w' o') = map_option sectionId (objs w1 o')"
    unfolding w' by (simp add: init_sectionId)
  show "self = next_oid w" by (rule s)
  show "next_oid w' = Suc (next_oid w)" unfolding w' by (simp add: w1 s init_host_fields)
  show "map_option sectionId (objs w' o') =
       (if o' = next_oid w then Some sid else map_option sectionId (objs w o'))"
    unfolding e by (simp add: w1 s sid)
qed

lemma instances_of_try_new:
  "instances_of sid (try_new msg sid' w) =
     instances_of sid w + (if sid' = sid \<and> \<not> isl (sel_section w sid') then 1 else 0)"
proof (cases "sel_section w sid'")
  case (Inl e)
  then show ?thesis by (simp add: try_new_def construct_def instances_of_def log_error_def)
next
  case (Inr sec)
  then obtain self w' where c: "construct sid' w = Inr (self, w')"
    by (simp add: construct_def Let_def)
  have "filter (\<lambda>o'. map_option sectionId (objs w' o') = Some sid) [0..<next_oid w] =
        filter (\<lambda>o'. map_option sectionId (objs w o') = Some sid) [0..<next_oid w]"
    by (rule filter_cong) (simp_all add: construct_sectionId(3) [OF c])
  then show ?thesis
    using c Inr by (simp add: try_new_def instances_of_def construct_sectionId [OF c])
qed


lemma instances_of_init_sections:
  assumes "sid \<noteq> []" and "\<not> isl (sel_section w sid)"
  shows "instances_of sid (initProductViewSections secs w) =
           instances_of sid w + count_list (map snd secs) sid"
  using assms(2)
proof (induction secs arbitrary: w)
  case Nil
  then show ?case by (simp add: initProductViewSections_def)
next
  case (Cons s secs)
  have sel: "sel_section (init_one w s) = sel_section w"
    by (simp add: init_one_def Let_def try_new_fields)
  have "instances_of sid (init_one w s) =
        instances_of sid w + (if snd s = sid then 1 else 0)"
    using Cons.prems assms(1) by (auto simp: init_one_def Let_def instances_of_try_new)
  with Cons.IH [of "init_one w s"] Cons.prems sel show ?case
    by (simp add: initProductViewSections_def)
qed

text \<open>
  C11 (every section is initialised twice). On a page that is already loaded, the
  script constructs one instance per tagged element at once and, when the 500 ms
  timer expires, another one: for every section id whose query succeeds, the
  number of its instances grows by twice the number of elements tagged with it.
  Spec section 3 says a section maps to at most one controller.
\<close>

theorem double_initialisation:
  assumes "\<not> loading p" and "sid \<noteq> []" and "\<not> isl (sel_section (pw p) sid)"
  shows "instances_of sid (pw (page_step (script_start p) (Timer_expires (length (timers p))))) =
           instances_of sid (pw p) + 2 * count_list (map snd (tagged p)) sid"
proof -
  let ?w1 = "initProductViewSections (tagged p) (pw p)"
  have sel: "sel_section ?w1 = sel_section (pw p)"
  proof -
    have "\<And>w. sel_section (foldl init_one w (tagged p)) = sel_section w"
      by (rule foldl_preserves_rel [where R = "\<lambda>a b. sel_section b = sel_section a"])
         (simp_all add: init_one_def Let_def try_new_fields)
    then show ?thesis by (simp add: initProductViewSections_def)
  qed
  have "pw (page_step (script_start p) (Timer_expires (length (timers p)))) =
        initProductViewSections (tagged p) ?w1"
    using assms(1) by (simp add: script_start_def Let_def run_task_def)
  then show ?thesis
    using instances_of_init_sections [OF assms(2,3), of "tagged p"]
      instances_of_init_sections [OF assms(2), of ?w1 "tagged p"] sel assms(3)
    by simp
qed

theorem double_initialisation_witness:
  "instances_of ''main'' (pw (page_step (script_start demo_page) (Timer_expires 0))) = 2"
proof -
  have l: "\<not> loading demo_page" and t: "length (timers demo_page) = 0"
    and s: "\<not> isl (sel_section (pw demo_page) ''main'')"
    by (simp_all add: demo_page_def demo_world_def)
  have "instances_of ''main'' (pw demo_page) = 0" and "map snd (tagged demo_page) = [''main'']"
    by (simp_all add: demo_page_def demo_world_def instances_of_def)
  then show ?thesis using double_initialisation [OF l _ s] t by simp
qed

section \<open>A dormant instance stays dormant on the page\<close>

lemma kept_refl: "kept self w w" by (simp add: kept_def)

lemma kept_trans: "kept self a b \<Longrightarrow> kept self b c \<Longrightarrow> kept self a c"
  by (auto simp: kept_def)

lemma kept_run: "kept self w (run w evs)"
  using untouched_run [of self w evs] wf_world_run [of w evs] by (auto simp: kept_def untouched_def)

lemma allocated_below_next:
  "wf_world w \<Longrightarrow> objs w self \<noteq> None \<Longrightarrow> self < next_oid w"
  by (auto simp: wf_world_def heap_inv_def dest: spec [of _ self] split: option.splits)

lemma kept_construct:
  assumes c: "construct sid w = Inr (o', w')"
  shows "kept self w w'"
  unfolding kept_def
proof (intro impI)
  assume a: "wf_world w \<and> objs w self \<noteq> None \<and> dormant self w"
  then have lt: "self < next_oid w" by (auto intro: allocated_below_next)
  have wf': "wf_world w'" using a c by (auto intro: wf_construct)
  obtain p w1 where s: "o' = next_oid w"
    and w1: "w1 = w\<lparr>objs := (objs w)(o' \<mapsto> p), next_oid := Suc o'\<rparr>"
    and w': "w' = (if section_el p \<noteq> None \<and> image1 p \<noteq> None \<and> \<not> isMobile p
               then init o' w1 else w1)"
    and "rafId p = None" and "observer p = None"
    and "isMobile p = is_mobile_width (innerWidth w)"
    and "image1 p \<noteq> None \<longrightarrow> section_el p \<noteq> None" and "sectionId p = sid"
    using c by (rule construct_InrE)
  have d1: "dormant self w1" and o1: "objs w1 self = objs w self"
    using a lt s by (auto simp: w1 dormant_def)
  have "untouched self w1 (init o' w1)" using lt s by (intro untouched_others) simp
  with d1 o1 wf' show "wf_world w' \<and> dormant self w' \<and> objs w' self = objs w self"
    by (auto simp: w' untouched_def)
qed

lemma kept_log: "kept self w (log_error msg w)"
  by (simp add: kept_def log_error_def wf_world_def frames_inv_def listeners_inv_def
      heap_inv_def owners_inv_def dormant_def cong: option.case_cong)

lemma kept_try_new: "kept self w (try_new msg sid w)"
  by (auto simp: try_new_def kept_log intro: kept_construct split: sum.splits)

lemma kept_init_sections: "kept self w (initProductViewSections secs w)"
  unfolding initProductViewSections_def
  by (rule foldl_preserves_rel)
     (auto simp: init_one_def Let_def kept_refl intro: kept_try_new kept_trans)

lemma kept_page_step: "kept self (pw p) (pw (page_step p ev))"
proof (cases ev)
  case (Host e)
  then show ?thesis using kept_run [of self "pw p" "[e]"] by (simp add: run_def)
next
  case Dom_ready
  then show ?thesis by (simp add: run_task_def kept_refl kept_init_sections)
next
  case (Timer_expires i)
  then show ?thesis
    by (auto simp: run_task_def kept_refl kept_init_sections kept_try_new split: task.splits)
next
  case (Dom_change secs s i)
  then show ?thesis
    by (simp add: kept_def wf_world_def frames_inv_def listeners_inv_def
        heap_inv_def owners_inv_def dormant_def cong: option.case_cong)
next
  case (Section_load sid)
  then show ?thesis by (simp add: kept_refl)
qed

lemma kept_page_run: "kept self (pw p) (pw (page_run p evs))"
  unfolding page_run_def
proof (induction evs arbitrary: p)
  case Nil
  then show ?case by (simp add: kept_refl)
next
  case (Cons e evs)
  show ?case using kept_page_step [of self p e] Cons.IH [of "page_step p e"]
    by (simp add: kept_trans [where b = "pw (page_step p e)"])
qed

text \<open>
  C12 (an instance built in mobile mode never activates). Take a well-formed page
  whose window is at most 749 pixels wide and construct an instance. Whatever
  happens afterwards (scrolling, resizing to any width, frames, intersection
  notifications, the document becoming ready, timers constructing further
  instances, editor changes), the instance's fields never change: it stays in
  mobile mode and never writes its image's clip-path. Spec section 4.1 says
  OnResize switches a controller to desktop and activates it.
\<close>

theorem mobile_instance_never_activates:
  assumes wf: "wf_world (pw p)" and mob: "is_mobile_width (innerWidth (pw p))"
    and c: "construct sid (pw p) = Inr (self, w1)"
  shows "objs (pw (page_run (p\<lparr>pw := w1\<rparr>) evs)) self = objs w1 self \<and>
         map_option isMobile (objs w1 self) = Some True"
proof -
  have self: "self = next_oid (pw p)" and w1: "w1 = (pw p)\<lparr>objs := (objs (pw p))(self \<mapsto>
      \<lparr>sectionId = sid, section_el = projr (sel_section (pw p) sid),
       image1 = (case projr (sel_section (pw p) sid) of None \<Rightarrow> None | Some s \<Rightarrow> sel_image (pw p) s),
       isMobile = True, rafId = None, isActive = False, observer = None\<rparr>),
       next_oid := Suc self\<rparr>"
    using c mob by (auto simp: construct_def Let_def split: sum.splits)
  have free: "objs (pw p) self = None"
    using wf self by (auto simp: wf_world_def heap_inv_def dest: spec [of _ self] split: option.splits)
  have "owners_inv (pw p)" and "frames_inv (pw p)" using wf by (simp_all add: wf_world_def)
  with free have "dormant self (pw p)"
    by (fastforce simp: owners_inv_def frames_inv_def dormant_def)
  then have d: "dormant self w1" using w1 by (simp add: dormant_def)
  have wf1: "wf_world w1" using wf c by (rule wf_construct)
  have al: "objs w1 self \<noteq> None" using w1 by simp
  have "kept self w1 (pw (page_run (p\<lparr>pw := w1\<rparr>) evs))"
    using kept_page_run [of self "p\<lparr>pw := w1\<rparr>" evs] by simp
  with d wf1 al have "objs (pw (page_run (p\<lparr>pw := w1\<rparr>) evs)) self = objs w1 self"
    by (simp add: kept_def)
  moreover have "map_option isMobile (objs w1 self) = Some True" using w1 by simp
  ultimately show ?thesis by simp
qed


theorem mobile_instance_never_activates_witness:
  "objs (pw (page_run (demo_page\<lparr>pw := snd (projr (construct ''main'' (demo_world\<lparr>innerWidth := 700\<rparr>)))\<rparr>)
      [Host (Resize 900 800 demo_geometry), Host (Scroll demo_geometry), Host Frame])) 0 =
   objs (snd (projr (construct ''main'' (demo_world\<lparr>innerWidth := 700\<rparr>)))) 0 \<and>
   map_option isMobile (objs (snd (projr (construct ''main'' (demo_world\<lparr>innerWidth := 700\<rparr>)))) 0) = Some True"
proof -
  let ?p = "demo_page\<lparr>pw := demo_world\<lparr>innerWidth := 700\<rparr>\<rparr>"
  have wf: "wf_world (pw ?p)"
    by (simp add: demo_world_def wf_world_def frames_inv_def listeners_inv_def heap_inv_def
        owners_inv_def)
  have mob: "is_mobile_width (innerWidth (pw ?p))"
    by (simp add: demo_world_def is_mobile_width_def)
  have c: "construct ''main'' (pw ?p) =
      Inr (0, snd (projr (construct ''main'' (demo_world\<lparr>innerWidth := 700\<rparr>))))"
    by (simp add: demo_world_def construct_def Let_def)
  have "?p\<lparr>pw := snd (projr (construct ''main'' (demo_world\<lparr>innerWidth := 700\<rparr>)))\<rparr> =
        demo_page\<lparr>pw := snd (projr (construct ''main'' (demo_world\<lparr>innerWidth := 700\<rparr>)))\<rparr>"
    by simp
  then show ?thesis
    using mobile_instance_never_activates [OF wf mob c,
        of "[Host (Resize 900 800 demo_geometry), Host (Scroll demo_geometry), Host Frame]"]
    by simp
qed

section \<open>The script's page runs\<close>

lemma wf_world_log [simp]: "wf_world (log_error msg w) = wf_world w"
  by (simp add: log_error_def wf_world_def frames_inv_def listeners_inv_def heap_inv_def
      owners_inv_def cong: option.case_cong)

lemma wf_world_try_new: "wf_world w \<Longrightarrow> wf_world (try_new msg sid w)"
  by (auto simp: try_new_def intro: wf_construct split: sum.splits)

lemma wf_world_init_sections: "wf_world w \<Longrightarrow> wf_world (initProductViewSections secs w)"
  unfolding initProductViewSections_def
  by (rule foldl_preserves) (simp_all add: init_one_def Let_def wf_world_try_new)

lemma wf_world_run_task: "wf_world (pw p) \<Longrightarrow> wf_world (pw (run_task t p))"
  by (simp add: run_task_def wf_world_init_sections wf_world_try_new split: task.splits)

lemma wf_world_dom_change [simp]:
  "wf_world (w\<lparr>sel_section := s, sel_image := i\<rparr>) = wf_world w"
  by (simp add: wf_world_def frames_inv_def listeners_inv_def heap_inv_def owners_inv_def
      cong: option.case_cong)

lemma wf_world_page_step: "wf_world (pw p) \<Longrightarrow> wf_world (pw (page_step p ev))"
  by (cases ev) (simp_all add: wf_world_step wf_world_run_task)

lemma wf_world_script_start: "wf_world (pw p) \<Longrightarrow> wf_world (pw (script_start p))"
  by (simp add: script_start_def Let_def wf_world_run_task)

text \<open>
  C20 (editor section loads). In the theme editor, a \<open>shopify:section:load\<close>
  event for a section constructs nothing at once: it leaves the program state as
  it is and schedules a 100 ms timer. When that timer expires, the page is the
  page before the event with \<open>new ProductViewParallax(sectionId)\<close> run inside
  its \<open>try\<close>. No instance is torn down: the section's instance count grows by
  one when its query succeeds, so an instance built earlier for a reloaded section
  stays alive beside the new one.
\<close>

theorem editor_section_load:
  assumes "section_load_listener p"
  shows "pw (page_step p (Section_load sid)) = pw p \<and>
         timers (page_step p (Section_load sid)) = timers p @ [(100, Construct_in_editor sid)] \<and>
         page_run p [Section_load sid, Timer_expires (length (timers p))] =
           p\<lparr>pw := try_new ''Error initializing ProductViewParallax in editor:'' sid (pw p)\<rparr> \<and>
         instances_of sid' (pw (page_run p [Section_load sid, Timer_expires (length (timers p))])) =
           instances_of sid' (pw p) + (if sid = sid' \<and> \<not> isl (sel_section (pw p) sid) then 1 else 0)"
proof -
  have r: "page_run p [Section_load sid, Timer_expires (length (timers p))] =
           p\<lparr>pw := try_new ''Error initializing ProductViewParallax in editor:'' sid (pw p)\<rparr>"
    using assms by (simp add: page_run_def run_task_def)
  then show ?thesis using assms by (simp add: instances_of_try_new)
qed

theorem editor_section_load_witness:
  "section_load_listener (script_start (demo_page\<lparr>design_mode := True\<rparr>)) \<and>
   pw (page_step (script_start (demo_page\<lparr>design_mode := True\<rparr>)) (Section_load ''main'')) =
     pw (script_start (demo_page\<lparr>design_mode := True\<rparr>)) \<and>
   instances_of ''main'' (pw (page_run (script_start (demo_page\<lparr>design_mode := True\<rparr>))
     [Section_load ''main'', Timer_expires 1])) = 2"
proof -
  let ?p = "script_start (demo_page\<lparr>design_mode := True\<rparr>)"
  have sl: "section_load_listener ?p" and len: "length (timers ?p) = 1"
    by (simp_all add: script_start_def demo_page_def Let_def run_task_def)
  have w0: "pw ?p = initProductViewSections [(1, ''main'')] demo_world"
    by (simp add: script_start_def demo_page_def Let_def run_task_def)
  have s0: "\<not> isl (sel_section demo_world ''main'')" and n0: "instances_of ''main'' demo_world = 0"
    by (simp_all add: demo_world_def instances_of_def)
  have "instances_of ''main'' (pw ?p) = 1" and "\<not> isl (sel_section (pw ?p) ''main'')"
    using instances_of_init_sections [OF _ s0, of "[(1, ''main'')]"] n0 s0
    by (simp_all add: w0 initProductViewSections_def init_one_def try_new_fields)
  note i = this
  note th = editor_section_load [OF sl, of "''main''" "''main''", unfolded len]
  have a: "pw (page_step ?p (Section_load ''main'')) = pw ?p" using th by blast
  have "instances_of ''main'' (pw (page_run ?p [Section_load ''main'', Timer_expires 1])) =
      instances_of ''main'' (pw ?p) +
        (if ''main'' = ''main'' \<and> \<not> isl (sel_section (pw ?p) ''main'') then 1 else 0)"
    using th by blast
  with i sl a show ?thesis by simp
qed

text \<open>
  C21 (the whole script keeps the invariants). From a well-formed page, the
  script's start followed by any sequence of page events (document ready, the
  timers in any order, host events, editor changes and section loads) yields a
  well-formed program state; in particular no instance ever has two pending
  animation frames, however many instances the script constructs.
\<close>

theorem page_keeps_invariants:
  assumes "wf_world (pw p)"
  shows "wf_world (pw (page_run (script_start p) evs)) \<and>
         (\<forall>self. length (filter (\<lambda>(h, o'). o' = self) (frames (pw (page_run (script_start p) evs)))) \<le> 1)"
proof -
  have wf: "wf_world (pw (page_run (script_start p) evs))"
    unfolding page_run_def
    by (rule foldl_preserves [where P = "\<lambda>p. wf_world (pw p)"])
       (simp_all add: wf_world_page_step wf_world_script_start assms)
  then have "frames_inv (pw (page_run (script_start p) evs))" by (simp add: wf_world_def)
  with wf show ?thesis by (blast intro: frames_inv_at_most_one)
qed

theorem page_keeps_invariants_witness:
  "wf_world (pw demo_page) \<and>
   length (filter (\<lambda>(h, o'). o' = 1) (frames (pw (page_run (script_start demo_page)
     [Timer_expires 0, Host (Scroll demo_geometry), Host (Scroll demo_geometry)])))) \<le> 1"
proof -
  have wf: "wf_world (pw demo_page)"
    by (simp add: demo_page_def demo_world_def wf_world_def frames_inv_def listeners_inv_def
        heap_inv_def owners_inv_def)
  show ?thesis using wf page_keeps_invariants [OF wf,
      of "[Timer_expires 0, Host (Scroll demo_geometry), Host (Scroll demo_geometry)]"] by blast
qed

section \<open>Observers on the page\<close>

lemma safe_try_new: "safe_world w \<Longrightarrow> safe_world (try_new msg sid w)"
  by (auto simp: safe_world_def try_new_def wf_world_try_new [unfolded try_new_def]
      intro: wf_construct observers_inv_construct split: sum.splits)

lemma safe_init_sections: "safe_world w \<Longrightarrow> safe_world (initProductViewSections secs w)"
  unfolding initProductViewSections_def
  by (rule foldl_preserves) (simp_all add: init_one_def Let_def safe_try_new)

lemma safe_run_task: "safe_world (pw p) \<Longrightarrow> safe_world (pw (run_task t p))"
  by (simp add: run_task_def safe_init_sections safe_try_new split: task.splits)

lemma safe_page_step: "safe_world (pw p) \<Longrightarrow> safe_world (pw (page_step p ev))"
  by (cases ev) (simp_all add: safe_world_def wf_world_step observers_inv_step safe_run_task
      [unfolded safe_world_def])

lemma observers_inv_live_unique:
  assumes "observers_inv w"
    and "observers w ob1 = Some r1" "obs_targets r1 \<noteq> []"
    and "observers w ob2 = Some r2" "obs_targets r2 \<noteq> []" "obs_owner r1 = obs_owner r2"
  shows "ob1 = ob2"
  using assms unfolding observers_inv_def by (metis option.inject)

text \<open>
  C26 (one live observer per instance, none in mobile mode). From a well-formed
  page, after the script's start and any page events, no instance has two
  IntersectionObservers that still observe something, and an instance in mobile
  mode has none: \<open>cleanup()\<close> disconnects the observer before \<open>init()\<close> creates
  the next one (spec section 5: observation is cancelled before a controller
  discards its subscriptions).
\<close>

theorem page_one_live_observer:
  assumes "wf_world (pw p)" and "observers_inv (pw p)"
  shows "(\<forall>ob1 ob2 r1 r2.
            observers (pw (page_run (script_start p) evs)) ob1 = Some r1 \<longrightarrow> obs_targets r1 \<noteq> [] \<longrightarrow>
            observers (pw (page_run (script_start p) evs)) ob2 = Some r2 \<longrightarrow> obs_targets r2 \<noteq> [] \<longrightarrow>
            obs_owner r1 = obs_owner r2 \<longrightarrow> ob1 = ob2) \<and>
         (\<forall>ob r q. observers (pw (page_run (script_start p) evs)) ob = Some r \<longrightarrow> obs_targets r \<noteq> [] \<longrightarrow>
            objs (pw (page_run (script_start p) evs)) (obs_owner r) = Some q \<longrightarrow> \<not> isMobile q)"
proof -
  have s: "safe_world (pw p)" using assms by (simp add: safe_world_def)
  have s0: "safe_world (pw (script_start p))"
    using s safe_run_task [OF s] by (simp add: script_start_def Let_def)
  have "safe_world (pw (page_run (script_start p) evs))"
    unfolding page_run_def
    by (rule foldl_preserves [where P = "\<lambda>p. safe_world (pw p)"]) (simp_all add: safe_page_step s0)
  then have inv: "observers_inv (pw (page_run (script_start p) evs))" by (simp add: safe_world_def)
  show ?thesis
  proof (intro conjI allI impI)
    fix ob1 ob2 r1 r2
    assume "observers (pw (page_run (script_start p) evs)) ob1 = Some r1" "obs_targets r1 \<noteq> []"
      "observers (pw (page_run (script_start p) evs)) ob2 = Some r2" "obs_targets r2 \<noteq> []"
      "obs_owner r1 = obs_owner r2"
    with inv show "ob1 = ob2" by (rule observers_inv_live_unique)
  next
    fix ob r q
    assume "observers (pw (page_run (script_start p) evs)) ob = Some r" "obs_targets r \<noteq> []"
      "objs (pw (page_run (script_start p) evs)) (obs_owner r) = Some q"
    then show "\<not> isMobile q" using inv unfolding observers_inv_def by fastforce
  qed
qed


theorem page_one_live_observer_witness:
  "wf_world (pw demo_page) \<and> observers_inv (pw demo_page) \<and>
   \<not> (\<exists>ob r q. observers (pw (page_run (script_start demo_page)
        [Timer_expires 0, Host (Resize 700 800 demo_geometry), Host (Resize 900 800 demo_geometry)])) ob = Some r \<and>
      obs_targets r \<noteq> [] \<and>
      objs (pw (page_run (script_start demo_page)
        [Timer_expires 0, Host (Resize 700 800 demo_geometry), Host (Resize 900 800 demo_geometry)])) (obs_owner r) = Some q \<and>
      isMobile q)"
proof -
  have wf: "wf_world (pw demo_page)"
    by (simp add: demo_page_def demo_world_def wf_world_def frames_inv_def listeners_inv_def
        heap_inv_def owners_inv_def)
  have oi: "observers_inv (pw demo_page)"
    by (simp add: demo_page_def demo_world_def observers_inv_def)
  show ?thesis
    using wf oi page_one_live_observer [OF wf oi,
      of "[Timer_expires 0, Host (Resize 700 800 demo_geometry), Host (Resize 900 800 demo_geometry)]"]
    by blast
qed

end
