(* ===== verification/Spec2Isabelle.thy ===== *)
theory Spec2Isabelle
  imports Bootstrap
begin

text \<open>
  \<^bold>\<open>A verification development for src/assets/product-view.js.\<close>

  The program is one script. The class \<open>ProductViewParallax\<close> (lines 4--132)
  controls one page section: its constructor finds the section by class and its
  first image, decides the mode from the window width (mobile at 749 pixels and
  below), and on desktop calls \<open>init()\<close>, which registers bound \<open>onScroll\<close> and
  \<open>onResize\<close> listeners on the window, updates once, and starts an
  IntersectionObserver. \<open>onScroll()\<close> coalesces scroll events into one
  animation frame; \<open>update()\<close> maps the section's rectangle to a progress in
  [0, 1] and writes the clip-path \<open>inset(p% 0 0 0)\<close> of the image;
  \<open>onResize()\<close> switches mode, calling \<open>cleanup()\<close> or \<open>init()\<close>. The top
  level (lines 134--173) constructs one instance per tagged section when the
  document is ready, again after 500 ms, and per loaded section in the theme
  editor.

  \<^bold>\<open>Theories.\<close>
  \<^item> Prelude: identity types (elements, objects, frame handles, observers), the
    lemma collections \<open>frame_simps\<close> and \<open>inv_intros\<close>, and list and fold lemmas
    shared by the invariant proofs.
  \<^item> Progress: the arithmetic of \<open>update()\<close> (lines 79--110) as
    \<open>scroll_progress\<close> and \<open>clip_value\<close> on real numbers; the contract of spec
    section 4.2 as \<open>spec_progress\<close>. Lemmas: refinement of the contract,
    monotonicity, bounds, the boundary branches, and that the clamp never binds
    on the rectangles the host returns.
  \<^item> Browser: the host the code is written against, which is not code of the
    repository: window size and geometry, the listener list, function identities
    created by \<open>bind\<close>, the animation-frame queue, IntersectionObservers,
    \<open>style.clipPath\<close>, the two selector queries and the console. The state is the
    extensible record \<open>browser\<close>; its operations follow the DOM and HTML
    standards as far as the code uses them.
  \<^item> Controller: the instance record \<open>pvp\<close> (the constructor's fields), the
    program state \<open>world\<close> (the browser record extended with the heap of
    instances), and one definition per method: \<open>update\<close>, \<open>init\<close>, the observer
    callback \<open>io_callback\<close>, \<open>onScroll\<close>, \<open>cleanup\<close>, \<open>onResize\<close>, and the
    constructor \<open>construct\<close>, which returns the exception of the section query
    as \<open>Inl\<close>. \<open>this\<close> is passed by identity so that host callbacks can name
    their instance. Three invariants (\<open>frames_inv\<close>: pending frames have distinct
    handles, each recorded in its instance's \<open>rafId\<close>; \<open>listeners_inv\<close>: every
    listener is a bound method with a past stamp; \<open>heap_inv\<close>: identities from
    \<open>next_oid\<close> on are free and an instance with an image has a section) are
    preserved by every method and the constructor (with a fourth, \<open>owners_inv\<close>:
    every listener and observer belongs to an allocated instance). Lemmas: the
    effect of each method on every branch (a single frame request per scroll,
    nothing written in mobile mode, cleanup's teardown, the
    listeners a return to desktop adds, the observer callback). A fifth
    invariant, \<open>observers_inv\<close> (an observer that still observes something is
    the one its instance's \<open>this.observer\<close> names; a mobile instance holds
    none), is kept by every method and by the constructor on well-formed states.
  \<^item> Runtime: the host's event loop: listener dispatch (snapshot of the listener
    list, removed listeners skipped), the animation-frame run, observer
    notifications, serialised into runs of events; runs keep the invariants, so
    an instance never has two pending frames, and a frame run leaves no pending
    callback behind. A dormant instance (nothing in the host can call it back)
    stays dormant and unchanged through any run. Resizing back and forth across
    the breakpoint \<open>k\<close> times leaves \<open>2 k\<close> extra listeners.
  \<^item> Bootstrap: \<open>initProductViewSections\<close> with its per-section try/catch, the
    script's start, and page events (document ready, timer expiry in any order,
    DOM changes and section loads in the editor). Lemmas: per-section isolation
    of exceptions, the number of instances each section gets (two per tagged
    element), the editor's load-then-construct path, and that the script's
    start followed by any page events keeps the invariants of Controller.thy,
    so that no instance ever has two pending frames or two live observers.

  \<^bold>\<open>Across components.\<close> This theory states what \<open>update()\<close> writes in
  the spec's own terms: the clip-path inset \<open>(1 - progress) * 100\<close> of spec
  section 4.2 for the spec's \<open>progress\<close>, with nothing else changed.

  \<^bold>\<open>Findings.\<close> Where the code and the spec part:
  \<^item> \<open>cleanup()\<close> removes the unbound prototype methods and so no listener;
    every return to desktop width adds another pair (Controller C4, C17, C27;
    Runtime C24: after \<open>k\<close> breakpoint cycles, \<open>2 k\<close> extra listeners).
  \<^item> The \<open>isActive\<close> flag set by the observer gates nothing (Controller C6).
  \<^item> An instance built at mobile width registers no resize listener and never
    activates (Bootstrap C12).
  \<^item> Every tagged section gets two instances, one when the document is ready and
    one 500 ms later (Bootstrap C11).
  Where the spec is silent:
  \<^item> A zero-height section at 0 in a zero-height viewport satisfies both the
    "below" and the "above" rule of spec section 8; the code gives 0, as for
    every section at or below the viewport's bottom (Progress C13).
  \<^item> When the theme editor reloads a section, the code keeps the old instance
    alive beside the new one (Bootstrap C20).

  \<^bold>\<open>Not modelled.\<close> IEEE double rounding (geometry is real-valued; the code's
  only division has a positive divisor for every rectangle the host returns);
  the formatting of the clip value into a CSS string (the model keeps the
  number); CSS selector parsing (the host's query is a function of the state);
  the debugging export of line 176. No loop of the program is unbounded: every
  iteration is over a finite list (listeners, frames, entries, sections), so no
  fuel is needed.
\<close>

section \<open>Properties across components\<close>

text \<open>
  C25 (update applies the spec's mapping). For a desktop instance with its section
  and image, and a rectangle the host can return, \<open>update()\<close> sets the image's
  clip-path to \<open>inset(v% 0 0 0)\<close> with \<open>v = (1 - progress) * 100\<close>, where
  \<open>progress\<close> is the spec's mapping of section 4.2 for the section's rectangle and
  the window height, and changes nothing else.
\<close>

theorem update_applies_spec:
  assumes p: "objs w s = Some p" and desk: "\<not> isMobile p"
    and img: "image1 p = Some img" and sec: "section_el p = Some sec"
    and wf: "rect_wf (rect_of w sec)"
  shows "clip_of (update s w) =
           (clip_of w)(img := Clip_inset ((1 - spec_progress (rect_top (rect_of w sec))
                                                (rect_height (rect_of w sec))
                                                (of_int (innerHeight w))) * 100)) \<and>
         update s w = w\<lparr>clip_of := clip_of (update s w)\<rparr>"
proof -
  have "update s w = set_clip img (Clip_inset (clip_value
          (scroll_progress (rect_of w sec) (of_int (innerHeight w))))) w"
    using p desk img sec by (simp add: update_def)
  then show ?thesis
    using scroll_progress_eq_spec [OF wf, of "of_int (innerHeight w)"]
    by (simp add: set_clip_def clip_value_def)
qed

theorem update_applies_spec_witness:
  "clip_of (update 0 ((snd (projr (construct ''main'' demo_world)))
     \<lparr>rect_of := (\<lambda>_. \<lparr>rect_top = -100, rect_bottom = 300, rect_height = 400\<rparr>)\<rparr>)) 101 =
   Clip_inset 25"
proof -
  let ?w = "(snd (projr (construct ''main'' demo_world)))
     \<lparr>rect_of := (\<lambda>_. \<lparr>rect_top = -100, rect_bottom = 300, rect_height = 400\<rparr>)\<rparr>"
  have p: "objs ?w 0 = Some \<lparr>sectionId = ''main'', section_el = Some 1, image1 = Some 101,
          isMobile = False, rafId = None, isActive = False, observer = Some 0\<rparr>"
    and h: "innerHeight ?w = 800"
    by (simp_all add: demo_world_def model_eval)
  have wf: "rect_wf (rect_of ?w 1)" by (simp add: rect_wf_def)
  show ?thesis
    using update_applies_spec [OF p _ _ _ wf] h by (simp add: spec_progress_def)
qed

end
